theory Spec2Isabelle
  imports Complex_Main "HOL-Library.Log_Nat"
begin

section \<open>Mastery and session scoring (flashcard helpers)\<close>

text \<open>
  \<^verbatim>\<open>updateCardConfidence(currentLevel, isCorrect)\<close>: confidence levels are the integers the
  review screen stores on a card; the function is \<^verbatim>\<open>Math.min(5, currentLevel + 1)\<close> on a
  correct answer and \<^verbatim>\<open>Math.max(0, currentLevel - 1)\<close> otherwise.
\<close>

definition updateCardConfidence :: "int \<Rightarrow> bool \<Rightarrow> int" where
  "updateCardConfidence currentLevel isCorrect =
     (if isCorrect then min 5 (currentLevel + 1) else max 0 (currentLevel - 1))"


text \<open>
  \<open>calculateSessionStats\<close> computes \<^verbatim>\<open>Math.round((correct / sessionResults.length) * 100)\<close> in
  double precision: the quotient is rounded to the nearest double, the product of that
  double with 100 is rounded again, and \<^verbatim>\<open>Math.round\<close> takes the result to the nearest
  integer, halves going up. Doubles are modelled as the rationals they denote. \<open>binade x\<close>
  is the exponent \<open>e\<close> with \<open>2^e \<le> x < 2^(e+1)\<close>, and \<open>fl64 x\<close> is the multiple of
  \<open>2^(e-52)\<close> nearest to a positive \<open>x\<close>, ties going to the even multiple: the IEEE 754
  rounding of binary64, away from overflow and subnormal numbers (the values here lie
  between \<open>2^-40\<close> and 100).
\<close>

definition binade :: "rat \<Rightarrow> int" where
  "binade x =
     (let (p, q) = quotient_of x; k = bitlen p - bitlen q
      in if 2 powi k \<le> x then k else k - 1)"

definition roundHalfEven :: "rat \<Rightarrow> int" where
  "roundHalfEven m =
     (let f = \<lfloor>m\<rfloor>
      in if m - of_int f < 1 / 2 then f
         else if m - of_int f > 1 / 2 then f + 1
         else if even f then f else f + 1)"

definition fl64 :: "rat \<Rightarrow> rat" where
  "fl64 x =
     (if x \<le> 0 then x
      else let e = binade x; ulp = 2 powi (e - 52)
           in of_int (roundHalfEven (x / ulp)) * ulp)"

definition mathRound :: "rat \<Rightarrow> int" where
  "mathRound y = \<lfloor>y + 1 / 2\<rfloor>"

text \<open>The results of a review session and the statistics shown at its end.\<close>

record sessionResult =
  cardIndex :: nat
  wasCorrect :: bool
  previousConfidence :: int
  newConfidence :: int

record sessionStats =
  know :: nat
  learning :: nat
  accuracy :: int

text \<open>The \<^verbatim>\<open>forEach\<close> loop, on the counters \<open>(know, learning, correct)\<close>.\<close>

fun countResults :: "sessionResult list \<Rightarrow> nat \<times> nat \<times> nat \<Rightarrow> nat \<times> nat \<times> nat" where
  "countResults [] counts = counts"
| "countResults (result # rest) (know', learning', correct) =
     countResults rest
       (if wasCorrect result \<or> newConfidence result = 5
        then (know' + 1, learning', correct + 1)
        else (know', learning' + 1, correct))"

definition calculateSessionStats :: "sessionResult list \<Rightarrow> sessionStats" where
  "calculateSessionStats sessionResults =
     (if sessionResults = [] then \<lparr>know = 0, learning = 0, accuracy = 0\<rparr>
      else
        case countResults sessionResults (0, 0, 0) of
          (know', learning', correct) \<Rightarrow>
            \<lparr>know = know', learning = learning',
             accuracy = mathRound (fl64 (fl64 (of_nat correct / of_nat (length sessionResults)) * 100))\<rparr>)"

text \<open>
  The specification's count for \<open>know\<close>, and the test that \<open>100 k / n\<close> lies exactly halfway
  between two integers (then \<open>(200 k + n) / (2 n)\<close> is an integer).
\<close>

definition knownCount :: "sessionResult list \<Rightarrow> nat" where
  "knownCount results = length (filter (\<lambda>r. wasCorrect r \<or> newConfidence r = 5) results)"

definition halfway :: "nat \<Rightarrow> nat \<Rightarrow> bool" where
  "halfway k n = ((200 * k + n) mod (2 * n) = 0)"

text \<open>
  The result that \<open>handleAnswer\<close> of the review screen appends to the session results for
  a card of the given confidence level: the new confidence is the one
  \<open>updateCardConfidence\<close> computes.
\<close>

definition handleAnswerResult :: "nat \<Rightarrow> int \<Rightarrow> bool \<Rightarrow> sessionResult" where
  "handleAnswerResult originalIndex confidenceLevel isCorrect =
     \<lparr>cardIndex = originalIndex, wasCorrect = isCorrect,
      previousConfidence = confidenceLevel,
      newConfidence = updateCardConfidence confidenceLevel isCorrect\<rparr>"

text \<open>Example results: a right answer, a wrong answer, and a result marked wrong whose new
  confidence is 5.\<close>

definition answeredRight :: sessionResult where
  "answeredRight = \<lparr>cardIndex = 0, wasCorrect = True, previousConfidence = 2, newConfidence = 3\<rparr>"

definition answeredWrong :: sessionResult where
  "answeredWrong = \<lparr>cardIndex = 1, wasCorrect = False, previousConfidence = 2, newConfidence = 1\<rparr>"

definition wrongAtFive :: sessionResult where
  "wrongAtFive = \<lparr>cardIndex = 2, wasCorrect = False, previousConfidence = 5, newConfidence = 5\<rparr>"

section \<open>Strings as the answer checker sees them\<close>

text \<open>
  A JavaScript string is a sequence of UTF-16 code units. The model takes the code units
  below 256 (the Latin-1 range, which contains ASCII), one \<^typ>\<open>char\<close> each. Within
  that range the white space of \<^verbatim>\<open>\s\<close> and of \<^verbatim>\<open>trim()\<close> is TAB, LF, VT, FF, CR, SPACE
  and NBSP; \<^verbatim>\<open>\w\<close> is \<^verbatim>\<open>[A-Za-z0-9_]\<close>; \<^verbatim>\<open>toLowerCase()\<close> adds 32 to the ASCII capitals
  and to the Latin-1 capitals \<open>0xC0..0xDE\<close> other than \<open>0xD7\<close>.
\<close>

definition isSpace :: "char \<Rightarrow> bool" where
  "isSpace c = ((of_char c :: nat) \<in> {9, 10, 11, 12, 13, 32, 160})"

definition isWord :: "char \<Rightarrow> bool" where
  "isWord c =
     (let n = (of_char c :: nat)
      in (65 \<le> n \<and> n \<le> 90) \<or> (97 \<le> n \<and> n \<le> 122) \<or> (48 \<le> n \<and> n \<le> 57) \<or> n = 95)"

definition toLowerChar :: "char \<Rightarrow> char" where
  "toLowerChar c =
     (let n = (of_char c :: nat)
      in if (65 \<le> n \<and> n \<le> 90) \<or> (192 \<le> n \<and> n \<le> 214) \<or> (216 \<le> n \<and> n \<le> 222)
         then char_of (n + 32) else c)"

definition toLowerCase :: "string \<Rightarrow> string" where
  "toLowerCase s = map toLowerChar s"

definition trim :: "string \<Rightarrow> string" where
  "trim s = rev (dropWhile isSpace (rev (dropWhile isSpace s)))"

fun startsWith :: "string \<Rightarrow> string \<Rightarrow> bool" where
  "startsWith s [] = True"
| "startsWith [] (p # ps) = False"
| "startsWith (c # cs) (p # ps) = (c = p \<and> startsWith cs ps)"

text \<open>\<^verbatim>\<open>s.includes(t)\<close>: \<open>t\<close> occurs in \<open>s\<close> as a contiguous run, at some start position.\<close>

fun includes_str :: "string \<Rightarrow> string \<Rightarrow> bool" where
  "includes_str [] t = (t = [])"
| "includes_str (c # cs) t = (startsWith (c # cs) t \<or> includes_str cs t)"

text \<open>\<^verbatim>\<open>.replace(/[^\w\s]/g, '')\<close> deletes every code unit that is neither a word
  character nor white space.\<close>

definition stripPunctuation :: "string \<Rightarrow> string" where
  "stripPunctuation s = filter (\<lambda>c. isWord c \<or> isSpace c) s"

text \<open>\<^verbatim>\<open>.replace(/\s+/g, ' ')\<close> replaces every maximal run of white space by one space.\<close>

function collapseWhitespace :: "string \<Rightarrow> string" where
  "collapseWhitespace [] = []"
| "collapseWhitespace (c # cs) =
     (if isSpace c then CHR '' '' # collapseWhitespace (dropWhile isSpace cs)
      else c # collapseWhitespace cs)"
  by pat_completeness auto
termination
  by (relation "measure length") (auto simp: le_imp_less_Suc length_dropWhile_le)

definition normalizeString :: "string \<Rightarrow> string" where
  "normalizeString str = collapseWhitespace (stripPunctuation (toLowerCase (trim str)))"

subsection \<open>Levenshtein distance\<close>

text \<open>
  The source fills a matrix with one row per prefix of \<open>str2\<close> and one column per prefix of
  \<open>str1\<close>. Row 0 is \<open>0, 1, \<dots>, |str1|\<close>; row \<open>i\<close> starts with \<open>i\<close>, and its entry \<open>j\<close> is the
  diagonal entry when the two characters agree and otherwise one more than the least of
  the diagonal (substitution), the left (insertion) and the upper (deletion) entry.
  \<open>levRow\<close> fills the columns \<open>j \<ge> 1\<close> of one row from the row above.
\<close>

fun levRow :: "char \<Rightarrow> string \<Rightarrow> nat list \<Rightarrow> nat \<Rightarrow> nat list" where
  "levRow c (d # ds) (diag # up # prev) left =
     (let v = (if c = d then diag else min (diag + 1) (min (left + 1) (up + 1)))
      in v # levRow c ds (up # prev) v)"
| "levRow c ds prev left = []"

definition levNextRow :: "string \<Rightarrow> nat list \<Rightarrow> char \<Rightarrow> nat list" where
  "levNextRow str1 prev c = (hd prev + 1) # levRow c str1 prev (hd prev + 1)"

fun levMatrix :: "string \<Rightarrow> string \<Rightarrow> nat list \<Rightarrow> nat list list" where
  "levMatrix str1 [] row = [row]"
| "levMatrix str1 (c # cs) row = row # levMatrix str1 cs (levNextRow str1 row c)"

definition levenshteinDistance :: "string \<Rightarrow> string \<Rightarrow> nat" where
  "levenshteinDistance str1 str2 =
     (levMatrix str1 str2 [0 ..< Suc (length str1)]) ! (length str2) ! (length str1)"

subsection \<open>Fuzzy matching of free-text answers\<close>

text \<open>
  \<^verbatim>\<open>Math.floor(maxLength * 0.1)\<close> is evaluated in double precision; for every length
  below \<open>2^50\<close> it is the integer quotient by 10, which the model uses.
\<close>

definition fuzzyMatch :: "string \<Rightarrow> string \<Rightarrow> bool" where
  "fuzzyMatch userAnswer correctAnswer =
     (if userAnswer = [] \<or> correctAnswer = [] then False
      else
        let normalizedUser = normalizeString userAnswer;
            normalizedCorrect = normalizeString correctAnswer
        in if normalizedUser = normalizedCorrect then True
           else if includes_str normalizedUser normalizedCorrect
                   \<or> includes_str normalizedCorrect normalizedUser then True
           else
             let distance = levenshteinDistance normalizedUser normalizedCorrect;
                 maxLength = max (length normalizedUser) (length normalizedCorrect);
                 maxAllowedDistance = max 2 (maxLength div 10)
             in distance \<le> maxAllowedDistance)"

section \<open>Diagram classifier\<close>

text \<open>
  \<^verbatim>\<open>text.split(/\s+/)\<close>: the pieces between the maximal runs of white space. A run at the
  very start or end leaves an empty piece there, and the empty string splits into one
  empty piece.
\<close>

function splitWhitespace :: "string \<Rightarrow> string list" where
  "splitWhitespace s =
     (let tok = takeWhile (\<lambda>c. \<not> isSpace c) s;
          rest = dropWhile (\<lambda>c. \<not> isSpace c) s
      in if rest = [] then [tok] else tok # splitWhitespace (dropWhile isSpace rest))"
  by pat_completeness auto
termination
proof (relation "measure length")
  show "wf (measure length)" by simp
next
  fix s :: string and tok rest :: string
  assume r: "rest = dropWhile (\<lambda>c. \<not> isSpace c) s" and ne: "rest \<noteq> []"
  have "length (dropWhile isSpace rest) < length rest"
  proof (cases rest)
    case Nil
    with ne show ?thesis by simp
  next
    case (Cons a as)
    with r have "dropWhile (\<lambda>c. \<not> isSpace c) s = a # as" by simp
    then have "isSpace a" by (simp add: dropWhile_eq_Cons_conv)
    with Cons show ?thesis
      by (simp add: le_imp_less_Suc length_dropWhile_le)
  qed
  moreover have "length rest \<le> length s"
    using r by (simp add: length_dropWhile_le)
  ultimately show "(dropWhile isSpace rest, s) \<in> measure length" by simp
qed

declare splitWhitespace.simps [simp del]

text \<open>\<^verbatim>\<open>extractedText.trim().split(/\s+/).filter(word => word.length > 0).length\<close>\<close>

definition wordCount :: "string \<Rightarrow> nat" where
  "wordCount extractedText =
     length (filter (\<lambda>word. length word > 0) (splitWhitespace (trim extractedText)))"

definition imageTypes :: "string list" where
  "imageTypes = [''image/jpeg'', ''image/jpg'', ''image/png'', ''image/webp'', ''image/gif'']"

definition shouldUseDiagramUnderstanding :: "string \<Rightarrow> string \<Rightarrow> bool" where
  "shouldUseDiagramUnderstanding fileType extractedText =
     (if toLowerCase fileType \<in> set imageTypes then wordCount extractedText < 50 else False)"

text \<open>
  The specification's word count, stated without the splitting: the number of maximal runs
  of code units that are not white space. The flag says whether the previous code unit
  belonged to a word.
\<close>

fun countRuns :: "bool \<Rightarrow> string \<Rightarrow> nat" where
  "countRuns inWord [] = 0"
| "countRuns inWord (c # cs) =
     (if isSpace c then countRuns False cs
      else (if inWord then 0 else 1) + countRuns True cs)"

definition countWords :: "string \<Rightarrow> nat" where
  "countWords txt = countRuns False txt"

text \<open>
  The specification's words for the file type: an image MIME type is a media type whose
  top-level type is \<open>image\<close> (type names are compared without regard to case).
\<close>

definition specImageMimeType :: "string \<Rightarrow> bool" where
  "specImageMimeType ftype = startsWith (toLowerCase ftype) ''image/''"

section \<open>Document chunker and chunk cleanup\<close>

text \<open>
  The file system as the chunker sees it: a partial map from paths to file contents, a file
  being either a PDF that \<^verbatim>\<open>PDFDocument.load\<close> parses into its pages (of any type \<open>'p\<close>) or
  bytes that it rejects. Directories are not modelled (the \<^verbatim>\<open>mkdirSync\<close> of the temp
  directory has no counterpart). What the Node runtime decides is a parameter:
  \<open>basename\<close> is \<^verbatim>\<open>path.basename(filePath, '.pdf')\<close>, \<open>dateNow i\<close> is the value of
  \<^verbatim>\<open>Date.now()\<close> when chunk \<open>i\<close> is saved, \<open>writeFails\<close> and \<open>unlinkFails\<close> say for which
  paths \<^verbatim>\<open>writeFileSync\<close> and \<^verbatim>\<open>unlinkSync\<close> throw, and \<open>processPdfChunk\<close> is the answer
  of the OCR service for the file at a path.
\<close>

type_synonym path = string

datatype 'p content = PdfDoc "'p list" | NotPdf

type_synonym 'p fs = "path \<rightharpoonup> 'p content"

datatype chunk_error = PageLimitError | OtherChunkError

record node_env =
  basename :: "path \<Rightarrow> string"
  dateNow :: "nat \<Rightarrow> nat"
  writeFails :: "path \<Rightarrow> bool"
  unlinkFails :: "path \<Rightarrow> bool"
  processPdfChunk :: "path \<Rightarrow> chunk_error + string"

datatype log_entry = LogInfo string | LogError string

definition MAX_PAGES_PER_CHUNK :: nat where
  "MAX_PAGES_PER_CHUNK = 15"

text \<open>Decimal digits of a number, as a template literal prints it.\<close>

fun showNat :: "nat \<Rightarrow> string" where
  "showNat n =
     (if n < 10 then [char_of (48 + n)]
      else showNat (n div 10) @ [char_of (48 + n mod 10)])"

declare showNat.simps [simp del]

text \<open>Reading a decimal numeral back; used to show that \<open>showNat\<close> is injective.\<close>

definition readNat :: "string \<Rightarrow> nat" where
  "readNat s = foldl (\<lambda>acc c. acc * 10 + ((of_char c :: nat) - 48)) 0 s"

text \<open>\<^verbatim>\<open>path.join(tempDir, name)\<close> for a directory written without a trailing separator
  (the callers pass \<^verbatim>\<open>/tmp\<close>) and a name without separators.\<close>

definition pathJoin :: "path \<Rightarrow> string \<Rightarrow> path" where
  "pathJoin dir name = dir @ ''/'' @ name"

definition chunkFileName :: "node_env \<Rightarrow> string \<Rightarrow> nat \<Rightarrow> nat \<Rightarrow> string" where
  "chunkFileName env baseFileName chunkIndex numChunks =
     baseFileName @ ''_chunk_'' @ showNat (chunkIndex + 1) @ ''_of_'' @ showNat numChunks
       @ ''_'' @ showNat (dateNow env chunkIndex) @ ''.pdf''"

text \<open>
  The body of the splitting loop, for the chunk indices still to do: copy the pages
  \<open>startPage ..< endPage\<close> of the source into a new document and save it. A failing write
  ends the loop with the error; the chunks written before it stay on disk.
\<close>

fun writeChunks ::
  "node_env \<Rightarrow> 'p list \<Rightarrow> string \<Rightarrow> path \<Rightarrow> nat \<Rightarrow> nat list \<Rightarrow> 'p fs \<Rightarrow> path list
     \<Rightarrow> 'p fs \<times> (string + path list)" where
  "writeChunks env sourcePdf baseFileName tempDir numChunks [] fs chunkPaths =
     (fs, Inr chunkPaths)"
| "writeChunks env sourcePdf baseFileName tempDir numChunks (chunkIndex # rest) fs chunkPaths =
     (let pageCount = length sourcePdf;
          startPage = chunkIndex * MAX_PAGES_PER_CHUNK;
          endPage = min (startPage + MAX_PAGES_PER_CHUNK) pageCount;
          pagesToCopy = [startPage ..< endPage];
          copiedPages = map (\<lambda>i. sourcePdf ! i) pagesToCopy;
          chunkPath = pathJoin tempDir (chunkFileName env baseFileName chunkIndex numChunks)
      in if writeFails env chunkPath then (fs, Inl ''Failed to split PDF'')
         else writeChunks env sourcePdf baseFileName tempDir numChunks rest
                (fs(chunkPath \<mapsto> PdfDoc copiedPages)) (chunkPaths @ [chunkPath]))"

text \<open>
  \<^verbatim>\<open>Math.ceil(pageCount / MAX_PAGES_PER_CHUNK)\<close> is evaluated in double precision; for every
  page count below \<open>2^50\<close> it is the integer \<open>(pageCount + 14) div 15\<close>, which the model
  uses.
\<close>

definition splitPdfIntoChunks ::
  "node_env \<Rightarrow> 'p fs \<Rightarrow> path \<Rightarrow> path \<Rightarrow> 'p fs \<times> (string + path list)" where
  "splitPdfIntoChunks env fs filePath tempDir =
     (case fs filePath of
        None \<Rightarrow> (fs, Inl ''Failed to split PDF'')
      | Some NotPdf \<Rightarrow> (fs, Inl ''Failed to split PDF'')
      | Some (PdfDoc sourcePdf) \<Rightarrow>
          (let pageCount = length sourcePdf
           in if pageCount \<le> MAX_PAGES_PER_CHUNK then (fs, Inr [filePath])
              else
                let baseFileName = basename env filePath;
                    numChunks = (pageCount + (MAX_PAGES_PER_CHUNK - 1)) div MAX_PAGES_PER_CHUNK
                in writeChunks env sourcePdf baseFileName tempDir numChunks [0 ..< numChunks]
                     fs []))"

text \<open>The pages with the indices \<open>[i\<cdot>15, min(i\<cdot>15 + 15, N))\<close> of a document of \<open>N\<close> pages.\<close>

definition pageRange :: "'p list \<Rightarrow> nat \<Rightarrow> 'p list" where
  "pageRange pages i = map (\<lambda>k. pages ! k) [i * 15 ..< min (i * 15 + 15) (length pages)]"

text \<open>A runtime in which no write and no deletion fails, for the examples.\<close>

definition quietEnv :: node_env where
  "quietEnv = \<lparr> basename = (\<lambda>p. ''notes''), dateNow = (\<lambda>i. 1700000000000 + i),
      writeFails = (\<lambda>p. False), unlinkFails = (\<lambda>p. False),
      processPdfChunk = (\<lambda>p. Inr p) \<rparr>"

text \<open>
  \<open>cleanupPdfChunks\<close>: for each path in turn, delete it if it exists and contains
  \<^verbatim>\<open>_chunk_\<close>; an exception of \<^verbatim>\<open>unlinkSync\<close> is caught and logged inside the loop body.
\<close>

fun cleanupPdfChunks ::
  "node_env \<Rightarrow> path list \<Rightarrow> 'p fs \<times> log_entry list \<Rightarrow> 'p fs \<times> log_entry list" where
  "cleanupPdfChunks env [] st = st"
| "cleanupPdfChunks env (chunkPath # rest) (fs, logs) =
     cleanupPdfChunks env rest
       (if fs chunkPath \<noteq> None \<and> includes_str chunkPath ''_chunk_''
        then (if unlinkFails env chunkPath
              then (fs, logs @ [LogError chunkPath])
              else (fs(chunkPath := None), logs @ [LogInfo chunkPath]))
        else (fs, logs))"

text \<open>
  The branch of \<open>extractTextFromFile\<close> for a PDF of more than 15 pages. The chunk list
  handed to the cleanup is the chunker's result without the source path. A chunk whose
  OCR fails is skipped, unless the failure is the page limit error: that one is thrown,
  and the handler of the function cleans the chunks up before it rethrows.
\<close>

fun processChunks ::
  "node_env \<Rightarrow> 'p fs \<Rightarrow> path list \<Rightarrow> string list \<Rightarrow> string + string list" where
  "processChunks env fs [] extractedTexts = Inr extractedTexts"
| "processChunks env fs (chunkPath # rest) extractedTexts =
     (case (if fs chunkPath = None then Inl OtherChunkError else processPdfChunk env chunkPath) of
        Inr chunkText \<Rightarrow> processChunks env fs rest (extractedTexts @ [chunkText])
      | Inl PageLimitError \<Rightarrow> Inl ''Chunk still exceeds page limit''
      | Inl OtherChunkError \<Rightarrow> processChunks env fs rest extractedTexts)"

fun joinWith :: "string \<Rightarrow> string list \<Rightarrow> string" where
  "joinWith sep [] = []"
| "joinWith sep [x] = x"
| "joinWith sep (x # y # ys) = x @ sep @ joinWith sep (y # ys)"

definition pdfChunkPaths :: "path \<Rightarrow> path list \<Rightarrow> path list" where
  "pdfChunkPaths filePath chunks = filter (\<lambda>chunk. chunk \<noteq> filePath) chunks"

definition extractLargePdf ::
  "node_env \<Rightarrow> 'p fs \<times> log_entry list \<Rightarrow> path \<Rightarrow> ('p fs \<times> log_entry list) \<times> (string + string)" where
  "extractLargePdf env st filePath =
     (case splitPdfIntoChunks env (fst st) filePath ''/tmp'' of
        (fs1, Inl err) \<Rightarrow> ((fs1, snd st), Inl (''Failed to extract text: '' @ err))
      | (fs1, Inr chunks) \<Rightarrow>
          (case processChunks env fs1 chunks [] of
             Inl err \<Rightarrow>
               (let paths = pdfChunkPaths filePath chunks
                in ((if length paths > 0 then cleanupPdfChunks env paths (fs1, snd st)
                     else (fs1, snd st)),
                    Inl (''Failed to extract text: '' @ err)))
           | Inr extractedTexts \<Rightarrow>
               (cleanupPdfChunks env (pdfChunkPaths filePath chunks) (fs1, snd st),
                Inr (joinWith ([CHR 10, CHR 10] @ ''--- Chunk separator ---'' @ [CHR 10, CHR 10])
                       extractedTexts))))"

section \<open>Response parser\<close>

text \<open>
  A parsed JSON value. An object is the list of its own properties in insertion order, with
  distinct keys (\<^verbatim>\<open>JSON.parse\<close> keeps the last of a repeated key). \<^verbatim>\<open>JSON.parse\<close> itself
  belongs to the runtime and is a parameter of the parser: \<open>None\<close> stands for the
  \<^verbatim>\<open>SyntaxError\<close> it throws.
\<close>

datatype json =
    JNull
  | JBool bool
  | JNumber rat
  | JString string
  | JArray "json list"
  | JObject "(string \<times> json) list"

text \<open>
  The errors the parser can end with. Every one of them leaves the function as
  \<^verbatim>\<open>Error('Failed to parse flashcard JSON: ' + message)\<close>, thrown by the handler that wraps
  the whole body; the constructor records which message it carries.
\<close>

datatype parse_error =
    JsonSyntaxError
  | JsTypeError
  | InvalidTitle
  | CardsNotArray
  | CardMissingQuestion
  | CardMissingAnswer

text \<open>
  Reading a property: \<^verbatim>\<open>null.x\<close> throws a \<^verbatim>\<open>TypeError\<close>; a boolean, a number, a string or
  an array has none of the property names the parser reads (\<^verbatim>\<open>title\<close>, \<^verbatim>\<open>cards\<close>, \<^verbatim>\<open>tags\<close>,
  \<^verbatim>\<open>question\<close>, \<^verbatim>\<open>answer\<close>), so the result is \<^verbatim>\<open>undefined\<close>, which is \<open>None\<close>.
\<close>

fun readProp :: "json \<Rightarrow> string \<Rightarrow> parse_error + json option" where
  "readProp JNull name = Inl JsTypeError"
| "readProp (JObject props) name = Inr (map_of props name)"
| "readProp v name = Inr None"

fun truthy :: "json option \<Rightarrow> bool" where
  "truthy None = False"
| "truthy (Some JNull) = False"
| "truthy (Some (JBool b)) = b"
| "truthy (Some (JNumber n)) = (n \<noteq> 0)"
| "truthy (Some (JString s)) = (s \<noteq> [])"
| "truthy (Some (JArray xs)) = True"
| "truthy (Some (JObject props)) = True"

fun isString :: "json option \<Rightarrow> bool" where
  "isString (Some (JString s)) = True"
| "isString v = False"

fun isArray :: "json option \<Rightarrow> bool" where
  "isArray (Some (JArray xs)) = True"
| "isArray v = False"

text \<open>Assignment \<^verbatim>\<open>obj.name = value\<close>: an existing property keeps its place, a new one goes
  to the end.\<close>

fun assignField :: "(string \<times> json) list \<Rightarrow> string \<Rightarrow> json \<Rightarrow> (string \<times> json) list" where
  "assignField [] name v = [(name, v)]"
| "assignField ((k, w) # props) name v =
     (if k = name then (k, v) # props else (k, w) # assignField props name v)"

fun assignProp :: "json \<Rightarrow> string \<Rightarrow> json \<Rightarrow> json" where
  "assignProp (JObject props) name v = JObject (assignField props name v)"
| "assignProp other name v = other"

definition endsWith :: "string \<Rightarrow> string \<Rightarrow> bool" where
  "endsWith s suffix = startsWith (rev s) (rev suffix)"

definition fence :: string where
  "fence = [CHR 0x60, CHR 0x60, CHR 0x60]"

text \<open>\<^verbatim>\<open>.replace(/^```json\n?/i, '')\<close> and \<^verbatim>\<open>.replace(/^```\n?/i, '')\<close> after the prefix test
  has succeeded: drop the prefix and one line feed after it, if there is one.\<close>

definition dropOpeningFence :: "nat \<Rightarrow> string \<Rightarrow> string" where
  "dropOpeningFence n s =
     (case drop n s of
        [] \<Rightarrow> []
      | c # cs \<Rightarrow> if c = CHR 0x0A then cs else c # cs)"

text \<open>\<^verbatim>\<open>.replace(/\n?```$/, '')\<close>: a closing fence at the very end goes, with the line feed
  before it, if there is one.\<close>

definition dropClosingFence :: "string \<Rightarrow> string" where
  "dropClosingFence s =
     (if endsWith s fence
      then (let t = take (length s - 3) s
            in if endsWith t [CHR 0x0A] then take (length t - 1) t else t)
      else s)"

definition cleanResponse :: "string \<Rightarrow> string" where
  "cleanResponse response =
     (let cleanedResponse = trim response
      in if startsWith cleanedResponse (fence @ ''json'')
         then dropClosingFence (dropOpeningFence 7 cleanedResponse)
         else if startsWith cleanedResponse fence
         then dropClosingFence (dropOpeningFence 3 cleanedResponse)
         else cleanedResponse)"

text \<open>The loop over the cards; \<open>None\<close> when no card is rejected.\<close>

fun validateCards :: "json list \<Rightarrow> parse_error option" where
  "validateCards [] = None"
| "validateCards (cardObj # rest) =
     (case readProp cardObj ''question'' of
        Inl e \<Rightarrow> Some e
      | Inr question \<Rightarrow>
          if \<not> truthy question \<or> \<not> isString question then Some CardMissingQuestion
          else
            (case readProp cardObj ''answer'' of
               Inl e \<Rightarrow> Some e
             | Inr answer \<Rightarrow>
                 if \<not> truthy answer \<or> \<not> isString answer then Some CardMissingAnswer
                 else validateCards rest))"

definition parseFlashcardResponse :: "(string \<Rightarrow> json option) \<Rightarrow> string \<Rightarrow> parse_error + json" where
  "parseFlashcardResponse jsonParse response =
     (case jsonParse (cleanResponse response) of
        None \<Rightarrow> Inl JsonSyntaxError
      | Some parsed \<Rightarrow>
          (case readProp parsed ''title'' of
             Inl e \<Rightarrow> Inl e
           | Inr title \<Rightarrow>
               if \<not> truthy title \<or> \<not> isString title then Inl InvalidTitle
               else
                 (case readProp parsed ''cards'' of
                    Inl e \<Rightarrow> Inl e
                  | Inr cards \<Rightarrow>
                      (case cards of
                         Some (JArray cardList) \<Rightarrow>
                           (let parsed' =
                                  (case readProp parsed ''tags'' of
                                     Inr tags \<Rightarrow>
                                       if \<not> isArray tags
                                       then assignProp parsed ''tags'' (JArray [])
                                       else parsed
                                   | Inl e \<Rightarrow> parsed)
                            in case validateCards cardList of
                                 Some e \<Rightarrow> Inl e
                               | None \<Rightarrow> Inr parsed')
                       | _ \<Rightarrow> Inl CardsNotArray))))"

text \<open>Reading a property of a value that is known not to be \<^verbatim>\<open>null\<close>.\<close>

definition getProp :: "json \<Rightarrow> string \<Rightarrow> json option" where
  "getProp v name = (case readProp v name of Inr x \<Rightarrow> x | Inl e \<Rightarrow> None)"

text \<open>
  The flashcard schema in the specification's words: the title is a non-empty string, the
  cards are a list, and every card has a non-empty string question and a non-empty string
  answer.
\<close>

definition nonEmptyString :: "json option \<Rightarrow> bool" where
  "nonEmptyString v = (case v of Some (JString s) \<Rightarrow> s \<noteq> [] | _ \<Rightarrow> False)"

definition validCard :: "json \<Rightarrow> bool" where
  "validCard cardObj =
     (nonEmptyString (getProp cardObj ''question'')
      \<and> nonEmptyString (getProp cardObj ''answer''))"

definition validFlashcardJson :: "json \<Rightarrow> bool" where
  "validFlashcardJson parsed =
     (nonEmptyString (getProp parsed ''title'')
      \<and> (case getProp parsed ''cards'' of
            Some (JArray cards) \<Rightarrow> list_all validCard cards
          | _ \<Rightarrow> False))"

text \<open>A fragment of \<^verbatim>\<open>JSON.parse\<close>, enough for the examples: two texts and their values.\<close>

definition sampleParse :: "string \<Rightarrow> json option" where
  "sampleParse s =
     (if s = ''{\"title\":\"Cells\",\"tags\":\"bio\"}''
      then Some (JObject [(''title'', JString ''Cells''), (''tags'', JString ''bio'')])
      else if s = ''{\"title\":\"Cells\",\"cards\":[{\"question\":\"Q\",\"answer\":\"A\"}]}''
      then Some (JObject [(''title'', JString ''Cells''),
                          (''cards'', JArray [JObject [(''question'', JString ''Q''),
                                                       (''answer'', JString ''A'')]])])
      else None)"

section \<open>Pipeline orchestrator\<close>

text \<open>
  \<open>processNotes\<close> with everything outside the function as a parameter. The world it acts
  on is the set of local temp files, the set of artifacts in durable storage (by storage
  URL), and the log of cleanup errors; the other log lines are left out. An upload adds an
  artifact, a download adds a local file, and only the cleanup at the end removes either.
  The services are oracles that answer with an error or a value: upload, download, OCR
  (\<open>extractTextFromFile\<close>, with the chunk files it makes and removes on its own), the
  base64 reader, the diagram model, the text model behind \<open>generateFlashcards\<close> (whose
  answer goes through \<open>parseFlashcardResponse\<close>) and \<open>generateQuiz\<close>. \<open>unlinkThrows\<close> and
  \<open>storageDeleteThrows\<close> say for which paths and URLs the deletion inside
  \<open>cleanupTempFile\<close> and \<open>deleteFileFromStorage\<close> throws.
\<close>

datatype https_code = Unauthenticated | InvalidArgument | FailedPrecondition | Internal

record fileData =
  name :: string
  fileType :: string
  base64 :: string

record processNotesRequest =
  files :: "fileData list"
  selectionType :: string
  numberOfItems :: int
  quizQuestionTypes :: "string list option"
  requestNotes :: "string option"

record downloadedFile =
  filePath :: string
  fileName :: string
  mimeType :: string
  storageUrl :: string

record extractedFileData =
  extractedName :: string
  extractedType :: string
  textContent :: string

record world =
  localFiles :: "string set"
  storageFiles :: "string set"
  cleanupErrors :: "string list"

record pipeline_env =
  processorId :: "string option"
  uploadFileFromBase64 :: "fileData \<Rightarrow> string \<Rightarrow> string + string"
  downloadFileFromStorage :: "string \<Rightarrow> string + (string \<times> string \<times> string)"
  fileSize :: "string \<Rightarrow> nat"
  extractTextFromFile :: "string \<Rightarrow> string \<Rightarrow> string + string"
  fileToBase64 :: "string \<Rightarrow> string + string"
  understandDiagram :: "string \<Rightarrow> string \<Rightarrow> string + string"
  flashcardText :: "string \<Rightarrow> int \<Rightarrow> string option \<Rightarrow> string + string"
  jsonParse :: "string \<Rightarrow> json option"
  generateQuiz :: "string \<Rightarrow> int \<Rightarrow> string list \<Rightarrow> string option \<Rightarrow> string + json"
  unlinkThrows :: "string \<Rightarrow> bool"
  storageDeleteThrows :: "string \<Rightarrow> bool"

text \<open>\<^verbatim>\<open>/^[A-Za-z0-9+/=]+$/.test(s)\<close>\<close>

definition isBase64Char :: "char \<Rightarrow> bool" where
  "isBase64Char c =
     (let n = (of_char c :: nat)
      in (65 \<le> n \<and> n \<le> 90) \<or> (97 \<le> n \<and> n \<le> 122) \<or> (48 \<le> n \<and> n \<le> 57)
         \<or> c = CHR ''+'' \<or> c = CHR ''/'' \<or> c = CHR ''='')"

definition validateFile :: "fileData \<Rightarrow> bool" where
  "validateFile file =
     (name file \<noteq> [] \<and> fileType file \<noteq> [] \<and> base64 file \<noteq> []
      \<and> fileType file \<in> {''pdf'', ''image''}
      \<and> trim (base64 file) \<noteq> [] \<and> list_all isBase64Char (trim (base64 file))
      \<and> \<not> (length (base64 file) * 3 > 24 * 1024 * 1024 * 4))"

definition validateRequest :: "pipeline_env \<Rightarrow> processNotesRequest \<Rightarrow> https_code option" where
  "validateRequest env data =
     (if files data = [] then Some InvalidArgument
      else if selectionType data \<notin> {''flashcard'', ''quiz''} then Some InvalidArgument
      else if numberOfItems data \<le> 0 then Some InvalidArgument
      else if selectionType data = ''quiz''
              \<and> (case quizQuestionTypes data of None \<Rightarrow> True | Some ts \<Rightarrow> ts = [])
           then Some InvalidArgument
      else if \<not> list_all validateFile (files data) then Some InvalidArgument
      else if list_ex (\<lambda>f. fileType f = ''pdf'') (files data) \<and> processorId env = None
           then Some FailedPrecondition
      else None)"

text \<open>Step 1: upload every file; the first failure ends the request.\<close>

fun uploadAll ::
  "pipeline_env \<Rightarrow> string \<Rightarrow> fileData list \<Rightarrow> world \<Rightarrow> string list
     \<Rightarrow> world \<times> (https_code + string list)" where
  "uploadAll env userId [] w uploadedFileUrls = (w, Inr uploadedFileUrls)"
| "uploadAll env userId (file # rest) w uploadedFileUrls =
     (case uploadFileFromBase64 env file userId of
        Inl err \<Rightarrow> (w, Inl Internal)
      | Inr url \<Rightarrow>
          uploadAll env userId rest (w\<lparr>storageFiles := insert url (storageFiles w)\<rparr>)
            (uploadedFileUrls @ [url]))"

text \<open>Step 2: download every uploaded file to a local temp file.\<close>

fun downloadAll ::
  "pipeline_env \<Rightarrow> string list \<Rightarrow> world \<Rightarrow> downloadedFile list
     \<Rightarrow> world \<times> (https_code + downloadedFile list)" where
  "downloadAll env [] w downloadedFiles = (w, Inr downloadedFiles)"
| "downloadAll env (url # rest) w downloadedFiles =
     (case downloadFileFromStorage env url of
        Inl err \<Rightarrow> (w, Inl Internal)
      | Inr (path, fname, mime) \<Rightarrow>
          (let w1 = w\<lparr>localFiles := insert path (localFiles w)\<rparr>
           in if path \<notin> localFiles w1 then (w1, Inl Internal)
              else downloadAll env rest w1
                     (downloadedFiles @ [\<lparr>filePath = path, fileName = fname, mimeType = mime,
                                             storageUrl = url\<rparr>])))"

definition isImageType :: "string \<Rightarrow> bool" where
  "isImageType mime = (toLowerCase mime \<in> set imageTypes)"

definition hasText :: "string \<Rightarrow> bool" where
  "hasText s = (s \<noteq> [] \<and> trim s \<noteq> [])"

text \<open>
  Step 3 for one file. A missing or empty file, and for a PDF a failing or empty OCR, is
  an error of the file; the outer handler turns it into the fatal error unless the file is
  an image, which goes on with empty text.
\<close>

definition extractOne :: "pipeline_env \<Rightarrow> world \<Rightarrow> downloadedFile \<Rightarrow> https_code + extractedFileData" where
  "extractOne env w file =
     (let isImage = isImageType (mimeType file);
          isPdf = (mimeType file = ''application/pdf'');
          failed = (if \<not> isImage then Inl Internal
                    else Inr \<lparr>extractedName = fileName file, extractedType = mimeType file,
                              textContent = []\<rparr>)
      in if filePath file \<notin> localFiles w then failed
         else if fileSize env (filePath file) = 0 then failed
         else
           (case extractTextFromFile env (filePath file) (mimeType file) of
              Inr text \<Rightarrow>
                if \<not> hasText text \<and> isPdf then failed
                else Inr \<lparr>extractedName = fileName file, extractedType = mimeType file,
                          textContent = text\<rparr>
            | Inl err \<Rightarrow>
                if isPdf then failed
                else Inr \<lparr>extractedName = fileName file, extractedType = mimeType file,
                          textContent = []\<rparr>))"

fun extractAll ::
  "pipeline_env \<Rightarrow> world \<Rightarrow> downloadedFile list \<Rightarrow> extractedFileData list
     \<Rightarrow> https_code + extractedFileData list" where
  "extractAll env w [] extractedFiles = Inr extractedFiles"
| "extractAll env w (file # rest) extractedFiles =
     (case extractOne env w file of
        Inl e \<Rightarrow> Inl e
      | Inr x \<Rightarrow> extractAll env w rest (extractedFiles @ [x]))"

text \<open>
  Step 4 for one file: the text it contributes, if any. Only a PDF without text is an
  error here.
\<close>

definition describeDiagram :: "pipeline_env \<Rightarrow> world \<Rightarrow> downloadedFile \<Rightarrow> string \<Rightarrow> string + string" where
  "describeDiagram env w downloaded ftype =
     (if filePath downloaded \<notin> localFiles w then Inl ''Image file not found''
      else if fileSize env (filePath downloaded) = 0 then Inl ''Image file is empty''
      else
        (case fileToBase64 env (filePath downloaded) of
           Inl err \<Rightarrow> Inl err
         | Inr imageBase64 \<Rightarrow>
             if imageBase64 = [] then Inl ''Failed to convert image to base64''
             else understandDiagram env imageBase64 ftype))"

definition processOne ::
  "pipeline_env \<Rightarrow> world \<Rightarrow> extractedFileData \<Rightarrow> downloadedFile \<Rightarrow> https_code + string option" where
  "processOne env w file downloaded =
     (let isImage = isImageType (extractedType file);
          isPdf = (extractedType file = ''application/pdf'');
          fallback = (if hasText (textContent file) then Some (textContent file) else None)
      in if isPdf then (if hasText (textContent file) then Inr (Some (textContent file))
                        else Inl Internal)
         else if isImage then
           (if shouldUseDiagramUnderstanding (extractedType file) (textContent file)
            then
              (case describeDiagram env w downloaded (extractedType file) of
                 Inr diagramDescription \<Rightarrow>
                   if hasText diagramDescription then Inr (Some diagramDescription)
                   else Inr fallback
               | Inl err \<Rightarrow> Inr fallback)
            else Inr fallback)
         else Inr fallback)"

fun processAll ::
  "pipeline_env \<Rightarrow> world \<Rightarrow> extractedFileData list \<Rightarrow> downloadedFile list \<Rightarrow> string list
     \<Rightarrow> https_code + string list" where
  "processAll env w (file # rest) (downloaded # drest) allTexts =
     (case processOne env w file downloaded of
        Inl e \<Rightarrow> Inl e
      | Inr None \<Rightarrow> processAll env w rest drest allTexts
      | Inr (Some text) \<Rightarrow> processAll env w rest drest (allTexts @ [text]))"
| "processAll env w extractedFiles downloadedFiles allTexts = Inr allTexts"

text \<open>\<open>generateFlashcards\<close>: the model's text, parsed and validated; any error is rethrown.\<close>

definition generateFlashcards :: "pipeline_env \<Rightarrow> string \<Rightarrow> int \<Rightarrow> string option \<Rightarrow> string + json" where
  "generateFlashcards env text numCards optNotes =
     (case flashcardText env text numCards optNotes of
        Inl err \<Rightarrow> Inl (''Failed to generate flashcards: '' @ err)
      | Inr textResponse \<Rightarrow>
          (case parseFlashcardResponse (jsonParse env) textResponse of
             Inl e \<Rightarrow> Inl ''Failed to generate flashcards: Failed to parse flashcard JSON''
           | Inr response \<Rightarrow> Inr response))"

text \<open>
  \<open>cleanupTempFile\<close> and \<open>deleteFileFromStorage\<close> catch and log what their deletion throws,
  so neither raises; step 5 calls both for every downloaded file.
\<close>

definition cleanupTempFile :: "pipeline_env \<Rightarrow> string \<Rightarrow> world \<Rightarrow> world" where
  "cleanupTempFile env path w =
     (if path \<in> localFiles w
      then (if unlinkThrows env path
            then w\<lparr>cleanupErrors := cleanupErrors w @ [''Error cleaning up temp file'']\<rparr>
            else w\<lparr>localFiles := localFiles w - {path}\<rparr>)
      else w)"

definition deleteFileFromStorage :: "pipeline_env \<Rightarrow> string \<Rightarrow> world \<Rightarrow> world" where
  "deleteFileFromStorage env url w =
     (if storageDeleteThrows env url \<or> url \<notin> storageFiles w
      then w\<lparr>cleanupErrors := cleanupErrors w @ [''Error deleting file from Storage'']\<rparr>
      else w\<lparr>storageFiles := storageFiles w - {url}\<rparr>)"

fun cleanupAll :: "pipeline_env \<Rightarrow> downloadedFile list \<Rightarrow> world \<Rightarrow> world" where
  "cleanupAll env [] w = w"
| "cleanupAll env (file # rest) w =
     cleanupAll env rest
       (deleteFileFromStorage env (storageUrl file) (cleanupTempFile env (filePath file) w))"

definition processNotes ::
  "pipeline_env \<Rightarrow> string option \<Rightarrow> processNotesRequest \<Rightarrow> world \<Rightarrow> world \<times> (https_code + json)" where
  "processNotes env auth data w =
     (case auth of
        None \<Rightarrow> (w, Inl Unauthenticated)
      | Some userId \<Rightarrow>
          (case validateRequest env data of
             Some e \<Rightarrow> (w, Inl e)
           | None \<Rightarrow>
               (case uploadAll env userId (files data) w [] of
                  (w1, Inl e) \<Rightarrow> (w1, Inl e)
                | (w1, Inr uploadedFileUrls) \<Rightarrow>
                    (case downloadAll env uploadedFileUrls w1 [] of
                       (w2, Inl e) \<Rightarrow> (w2, Inl e)
                     | (w2, Inr downloadedFiles) \<Rightarrow>
                         if downloadedFiles = [] then (w2, Inl Internal)
                         else
                           (case extractAll env w2 downloadedFiles [] of
                              Inl e \<Rightarrow> (w2, Inl e)
                            | Inr extractedFiles \<Rightarrow>
                                (case processAll env w2 extractedFiles downloadedFiles [] of
                                   Inl e \<Rightarrow> (w2, Inl e)
                                 | Inr allTexts \<Rightarrow>
                                     (let combinedText = joinWith [CHR 0x0A, CHR 0x0A] allTexts
                                      in if trim combinedText = [] then (w2, Inl InvalidArgument)
                                         else
                                           (case (if selectionType data = ''flashcard''
                                                  then generateFlashcards env combinedText
                                                         (numberOfItems data) (requestNotes data)
                                                  else generateQuiz env combinedText
                                                         (numberOfItems data)
                                                         (case quizQuestionTypes data of
                                                            None \<Rightarrow> [] | Some ts \<Rightarrow> ts)
                                                         (requestNotes data)) of
                                              Inl err \<Rightarrow> (w2, Inl Internal)
                                            | Inr result \<Rightarrow>
                                                (cleanupAll env downloadedFiles w2,
                                                 Inr result)))))))))"

text \<open>
  Example: one PDF, uploaded, downloaded and read without trouble; the text model answers
  with text that is not JSON, so the generation stage fails.
\<close>

definition sampleEnv :: pipeline_env where
  "sampleEnv = \<lparr>
     processorId = Some ''ocr-1'',
     uploadFileFromBase64 = (\<lambda>file userId. Inr (''gs://bucket/uploads/'' @ userId @ ''/1_'' @ name file)),
     downloadFileFromStorage = (\<lambda>url. Inr (''/tmp/2_1_notes.pdf'', ''1_notes.pdf'', ''application/pdf'')),
     fileSize = (\<lambda>path. 2048),
     extractTextFromFile = (\<lambda>path mime. Inr ''The cell is the unit of life.''),
     fileToBase64 = (\<lambda>path. Inr ''QUJD''),
     understandDiagram = (\<lambda>image mime. Inr ''A diagram.''),
     flashcardText = (\<lambda>text n optNotes. Inr ''Sorry, I cannot help with that.''),
     jsonParse = sampleParse,
     generateQuiz = (\<lambda>text n types optNotes. Inl ''unavailable''),
     unlinkThrows = (\<lambda>path. False),
     storageDeleteThrows = (\<lambda>url. False) \<rparr>"

text \<open>
  The same run with a text model that answers with a valid flashcard set, and a storage
  service whose deletions fail.
\<close>

definition workingEnv :: pipeline_env where
  "workingEnv = sampleEnv\<lparr>
     flashcardText := (\<lambda>text n optNotes.
        Inr ''{\"title\":\"Cells\",\"cards\":[{\"question\":\"Q\",\"answer\":\"A\"}]}''),
     storageDeleteThrows := (\<lambda>url. True)\<rparr>"

definition sampleRequest :: processNotesRequest where
  "sampleRequest = \<lparr> files = [\<lparr>name = ''notes.pdf'', fileType = ''pdf'', base64 = ''JVBERi0x''\<rparr>],
     selectionType = ''flashcard'', numberOfItems = 5, quizQuestionTypes = None,
     requestNotes = None \<rparr>"

definition emptyWorld :: world where
  "emptyWorld = \<lparr> localFiles = {}, storageFiles = {}, cleanupErrors = [] \<rparr>"

section \<open>Persistence: saving with duplicate detection\<close>

text \<open>
  A stored time is the number of milliseconds \<^verbatim>\<open>toMillis()\<close> returns; for a Firestore
  \<^verbatim>\<open>Timestamp\<close> the fallbacks \<^verbatim>\<open>|| seconds * 1000 || 0\<close> of the source give the same number.
  The items of a set (cards, questions) are of any type: the save functions only count
  them. A quiz read back from the store may lack \<^verbatim>\<open>bookmarkedQuestions\<close> (the defensive
  check of \<open>saveQuizToFirestore\<close> is about that), so the field is optional.

  The user document holds the two history lists; a missing list reads as the empty list,
  as \<^verbatim>\<open>userData?.history?.quizzes || []\<close> does. \<^verbatim>\<open>runTransaction\<close> is one atomic step from
  the store before to the store after, or fails without writing (\<open>txFails\<close>).
\<close>

record 'q quizData =
  title :: string
  creationDate :: nat
  isComplete :: bool
  lastAccessed :: nat
  lastQuestionIndex :: "nat option"
  score :: nat
  tags :: "string list"
  questionsList :: "'q list"
  bookmarkedQuestions :: "nat list option"

record 'c flashcardData =
  title :: string
  tags :: "string list"
  creationDate :: nat
  lastReviewed :: nat
  cards :: "'c list"

record ('c, 'q) userDoc =
  flashcards :: "'c flashcardData list"
  quizzes :: "'q quizData list"

type_synonym ('c, 'q) firestore = "string \<rightharpoonup> ('c, 'q) userDoc"

text \<open>\<^verbatim>\<open>Math.abs(existingTime - newTime)\<close>\<close>

definition timeDiff :: "nat \<Rightarrow> nat \<Rightarrow> nat" where
  "timeDiff existingTime newTime =
     (if existingTime \<le> newTime then newTime - existingTime else existingTime - newTime)"

definition saveFlashcardToFirestore ::
  "bool \<Rightarrow> nat \<Rightarrow> ('c, 'q) firestore \<Rightarrow> string \<Rightarrow> 'c flashcardData
     \<Rightarrow> ('c, 'q) firestore \<times> (string + 'c flashcardData)" where
  "saveFlashcardToFirestore txFails now db userId flashcardData =
     (if txFails then (db, Inl ''Failed to save flashcard'')
      else
        let flashcard = flashcardData\<lparr>flashcardData.creationDate := now, lastReviewed := now\<rparr>
        in case db userId of
             None \<Rightarrow>
               (db(userId \<mapsto> \<lparr>flashcards = [flashcard], quizzes = []\<rparr>), Inr flashcard)
           | Some userData \<Rightarrow>
               (let existingFlashcards = flashcards userData;
                    isDuplicate = list_ex (\<lambda>existingFlashcard.
                        flashcardData.title existingFlashcard = flashcardData.title flashcard
                        \<and> timeDiff (flashcardData.creationDate existingFlashcard)
                              (flashcardData.creationDate flashcard) < 5000
                        \<and> length (cards existingFlashcard) = length (cards flashcard))
                      existingFlashcards
                in if \<not> isDuplicate
                   then (db(userId \<mapsto> userData\<lparr>flashcards := existingFlashcards @ [flashcard]\<rparr>),
                         Inr flashcard)
                   else
                     let duplicate = find (\<lambda>existingFlashcard.
                           flashcardData.title existingFlashcard = flashcardData.title flashcard
                           \<and> timeDiff (flashcardData.creationDate existingFlashcard)
                                 (flashcardData.creationDate flashcard) < 5000)
                         existingFlashcards
                     in (db, Inr (case duplicate of Some d \<Rightarrow> d | None \<Rightarrow> flashcard))))"

text \<open>\<^verbatim>\<open>quizzes.findIndex(p)\<close>, with \<open>None\<close> for \<open>-1\<close>.\<close>

fun findIndex :: "('a \<Rightarrow> bool) \<Rightarrow> 'a list \<Rightarrow> nat option" where
  "findIndex p [] = None"
| "findIndex p (x # xs) =
     (if p x then Some 0 else map_option Suc (findIndex p xs))"

text \<open>
  The transaction of \<open>saveQuizToFirestore\<close>, and then the function with its check after the
  transaction: a returned quiz without \<^verbatim>\<open>bookmarkedQuestions\<close> gets the empty list and is
  written back over the first stored quiz of the same title created within a second of it.
\<close>

definition saveQuizTransaction ::
  "nat \<Rightarrow> ('c, 'q) firestore \<Rightarrow> string \<Rightarrow> 'q quizData
     \<Rightarrow> ('c, 'q) firestore \<times> 'q quizData" where
  "saveQuizTransaction now db userId quizData =
     (let quiz = quizData\<lparr>quizData.creationDate := now, lastAccessed := now,
                   lastQuestionIndex := Some 0, bookmarkedQuestions := Some []\<rparr>
      in case db userId of
           None \<Rightarrow> (db(userId \<mapsto> \<lparr>flashcards = [], quizzes = [quiz]\<rparr>), quiz)
         | Some userData \<Rightarrow>
             (let existingQuizzes = quizzes userData;
                  isDuplicate = list_ex (\<lambda>existingQuiz.
                      quizData.title existingQuiz = quizData.title quiz
                      \<and> timeDiff (quizData.creationDate existingQuiz)
                            (quizData.creationDate quiz) < 5000
                      \<and> length (questionsList existingQuiz) = length (questionsList quiz))
                    existingQuizzes
              in if \<not> isDuplicate
                 then (db(userId \<mapsto> userData\<lparr>quizzes := existingQuizzes @ [quiz]\<rparr>), quiz)
                 else
                   let duplicate = find (\<lambda>existingQuiz.
                         quizData.title existingQuiz = quizData.title quiz
                         \<and> timeDiff (quizData.creationDate existingQuiz)
                               (quizData.creationDate quiz) < 5000)
                       existingQuizzes
                   in (db, case duplicate of Some d \<Rightarrow> d | None \<Rightarrow> quiz)))"

definition saveQuizToFirestore ::
  "bool \<Rightarrow> nat \<Rightarrow> ('c, 'q) firestore \<Rightarrow> string \<Rightarrow> 'q quizData
     \<Rightarrow> ('c, 'q) firestore \<times> (string + 'q quizData)" where
  "saveQuizToFirestore txFails now db userId quizData =
     (if txFails then (db, Inl ''Failed to save quiz'')
      else
        case saveQuizTransaction now db userId quizData of
          (db1, savedQuiz) \<Rightarrow>
            if bookmarkedQuestions savedQuiz = None
            then
              (let finalQuiz = savedQuiz\<lparr>bookmarkedQuestions := Some []\<rparr>
               in case db1 userId of
                    None \<Rightarrow> (db1, Inr finalQuiz)
                  | Some userData \<Rightarrow>
                      (case findIndex (\<lambda>q. quizData.title q = quizData.title finalQuiz
                                \<and> timeDiff (quizData.creationDate q)
                                      (quizData.creationDate finalQuiz) < 1000)
                              (quizzes userData) of
                         None \<Rightarrow> (db1, Inr finalQuiz)
                       | Some quizIndex \<Rightarrow>
                           (db1(userId \<mapsto>
                                userData\<lparr>quizzes := (quizzes userData)[quizIndex := finalQuiz]\<rparr>),
                            Inr finalQuiz)))
            else (db1, Inr savedQuiz))"

text \<open>
  Example data: a user who already has a three-card set titled \<open>Cells\<close>, created at
  time 1000, and a five-card set (respectively a five-question quiz) of the same title that
  is submitted twice, at times 1500 and 2000.
\<close>

definition cellsThree :: "nat flashcardData" where
  "cellsThree = \<lparr>flashcardData.title = ''Cells'', tags = [], creationDate = 1000,
      lastReviewed = 1000, cards = [1, 2, 3]\<rparr>"

definition cellsFive :: "nat flashcardData" where
  "cellsFive = \<lparr>flashcardData.title = ''Cells'', tags = [], creationDate = 0,
      lastReviewed = 0, cards = [1, 2, 3, 4, 5]\<rparr>"

definition quizThree :: "nat quizData" where
  "quizThree = \<lparr>quizData.title = ''Cells'', creationDate = 1000, isComplete = False,
      lastAccessed = 1000, lastQuestionIndex = Some 0, score = 0, tags = [],
      questionsList = [1, 2, 3], bookmarkedQuestions = Some []\<rparr>"

definition quizFive :: "nat quizData" where
  "quizFive = \<lparr>quizData.title = ''Cells'', creationDate = 0, isComplete = False,
      lastAccessed = 0, lastQuestionIndex = None, score = 0, tags = [],
      questionsList = [1, 2, 3, 4, 5], bookmarkedQuestions = None\<rparr>"

definition storeBefore :: "(nat, nat) firestore" where
  "storeBefore = [''u1'' \<mapsto> \<lparr>flashcards = [cellsThree], quizzes = [quizThree]\<rparr>]"

text \<open>The longer of the two normalized lengths, \<open>maxLength\<close> in \<open>fuzzyMatch\<close>.\<close>

definition maxLength :: "string \<Rightarrow> string \<Rightarrow> nat" where
  "maxLength u c = max (length (normalizeString u)) (length (normalizeString c))"

text \<open>
  The specification's words for the distance. A single edit inserts one character at some
  position, deletes one character, or replaces one character by a different one;
  \<open>edits n a b\<close> says that \<open>n\<close> single edits, one after the other, turn \<open>a\<close> into \<open>b\<close>; the
  edit distance is the least such \<open>n\<close>.
\<close>

definition edit1 :: "'a list \<Rightarrow> 'a list \<Rightarrow> bool" where
  "edit1 a b =
     (\<exists>xs ys c. (a = xs @ ys \<and> b = xs @ c # ys)
        \<or> (a = xs @ c # ys \<and> b = xs @ ys)
        \<or> (\<exists>d. c \<noteq> d \<and> a = xs @ c # ys \<and> b = xs @ d # ys))"

fun edits :: "nat \<Rightarrow> 'a list \<Rightarrow> 'a list \<Rightarrow> bool" where
  "edits 0 a b = (a = b)"
| "edits (Suc n) a b = (\<exists>m. edit1 a m \<and> edits n m b)"

definition editDistance :: "'a list \<Rightarrow> 'a list \<Rightarrow> nat" where
  "editDistance a b = (LEAST n. edits n a b)"

text \<open>
  For the proof that the matrix computes the edit distance: the recurrence of the matrix
  as a function of the two strings read from their first characters, and the row of the
  matrix that belongs to the prefix \<open>p\<close> of \<open>str2\<close>, from the column of the prefix \<open>q\<close> of
  \<open>str1\<close> onwards (the strings are reversed because the matrix extends prefixes at their
  end).
\<close>

fun lev :: "'a list \<Rightarrow> 'a list \<Rightarrow> nat" where
  "lev [] ys = length ys"
| "lev (x # xs) [] = Suc (length xs)"
| "lev (x # xs) (y # ys) =
     (if x = y then lev xs ys
      else min (lev xs ys + 1) (min (lev (x # xs) ys + 1) (lev xs (y # ys) + 1)))"

fun rowOf :: "'a list \<Rightarrow> 'a list \<Rightarrow> 'a list \<Rightarrow> nat list" where
  "rowOf p q [] = [lev (rev p) (rev q)]"
| "rowOf p q (d # ds) = lev (rev p) (rev q) # rowOf p (q @ [d]) ds"

section \<open>Theorems\<close>

text \<open>
  C8. \<^verbatim>\<open>updateCardConfidence(currentLevel, isCorrect)\<close> is \<open>min(5, currentLevel + 1)\<close> when the
  answer was correct and \<open>max(0, currentLevel - 1)\<close> when it was not; from a level in \<open>[0, 5]\<close>
  the result is again in \<open>[0, 5]\<close>; at the two ends it saturates:
  \<open>updateCardConfidence 5 True = 5\<close> and \<open>updateCardConfidence 0 False = 0\<close>.
\<close>

theorem updateCardConfidence_saturates:
  "updateCardConfidence l True = min 5 (l + 1)
   \<and> updateCardConfidence l False = max 0 (l - 1)
   \<and> (0 \<le> l \<and> l \<le> 5 \<longrightarrow> 0 \<le> updateCardConfidence l b \<and> updateCardConfidence l b \<le> 5)
   \<and> updateCardConfidence 5 True = 5
   \<and> updateCardConfidence 0 False = 0"
  by (simp add: updateCardConfidence_def)

theorem updateCardConfidence_saturates_witness:
  "updateCardConfidence 3 True = min 5 (3 + 1)
   \<and> updateCardConfidence 3 False = max 0 (3 - 1)
   \<and> ((0::int) \<le> 3 \<and> (3::int) \<le> 5)
   \<and> 0 \<le> updateCardConfidence 3 False \<and> updateCardConfidence 3 False \<le> 5
   \<and> updateCardConfidence 3 False = 2"
  using updateCardConfidence_saturates [of 3 False]
  by (simp add: updateCardConfidence_def)

subsection \<open>Answer matching\<close>

lemma startsWith_refl: "startsWith s s"
  by (induction s) simp_all

lemma includes_str_refl: "includes_str s s"
  by (cases s) (simp_all add: startsWith_refl)

lemma includes_str_Nil: "includes_str s []"
  by (cases s) simp_all

lemma normalizeString_Nil: "normalizeString [] = []"
  by (simp add: normalizeString_def trim_def toLowerCase_def stripPunctuation_def)

lemma levenshteinDistance_Nil2: "levenshteinDistance s [] = length s"
proof -
  have "[0 ..< Suc (length s)] ! length s = 0 + length s"
    by (rule nth_upt) simp
  then show ?thesis
    by (simp add: levenshteinDistance_def del: upt_Suc)
qed

lemma levMatrix_Nil1: "levMatrix [] t [k] ! length t = [k + length t]"
  by (induction t arbitrary: k) (simp_all add: levNextRow_def)

lemma levenshteinDistance_Nil1: "levenshteinDistance [] t = length t"
  using levMatrix_Nil1 [of t 0] by (simp add: levenshteinDistance_def)

text \<open>
  C9. A non-empty answer whose normalization is empty (only punctuation, say) matches
  every non-empty correct answer: the guard at the top of \<open>fuzzyMatch\<close> looks at the raw
  strings only, and the empty normalized string is contained in every string.
\<close>

theorem fuzzyMatch_empty_normalization:
  "userAnswer \<noteq> [] \<Longrightarrow> correctAnswer \<noteq> [] \<Longrightarrow> normalizeString userAnswer = []
   \<Longrightarrow> fuzzyMatch userAnswer correctAnswer"
  by (simp add: fuzzyMatch_def Let_def includes_str_Nil)

theorem fuzzyMatch_empty_normalization_witness:
  "''?!...'' \<noteq> [] \<and> ''mitochondria'' \<noteq> [] \<and> normalizeString ''?!...'' = []
   \<and> fuzzyMatch ''?!...'' ''mitochondria''"
proof -
  have h: "normalizeString ''?!...'' = []" by code_simp
  show ?thesis
    using fuzzyMatch_empty_normalization [of "''?!...''" "''mitochondria''", OF _ _ h] h
    by simp
qed

text \<open>
  The matrix computes the edit distance. First the recurrence: it is a lower bound for the
  number of edits, because a single edit anywhere in a string changes it by at most one,
  and it is reached by a sequence of edits.
\<close>

lemma lev_Nil2 [simp]: "lev xs [] = length xs"
  by (cases xs) simp_all

lemma lev_refl [simp]: "lev xs xs = 0"
  by (induction xs) simp_all

text \<open>One more character on either side changes the distance by at most one.\<close>

lemma lev_Cons_le:
  "lev xs ys \<le> Suc (lev (c # xs) ys) \<and> lev xs ys \<le> Suc (lev xs (c # ys))
   \<and> lev (c # xs) ys \<le> Suc (lev xs ys) \<and> lev xs (c # ys) \<le> Suc (lev xs ys)"
proof (induction "length xs + length ys" arbitrary: xs ys c rule: less_induct)
  case less
  note IH = less.hyps
  have B': "lev (c # xs) ys \<le> Suc (lev xs ys)"
  proof (cases ys)
    case Nil
    then show ?thesis by simp
  next
    case (Cons y ys')
    have "lev xs ys' \<le> Suc (lev xs (y # ys'))"
      using IH [of xs ys' y] Cons by simp
    then show ?thesis using Cons by (auto simp: min_def)
  qed
  have B: "lev xs (c # ys) \<le> Suc (lev xs ys)"
  proof (cases xs)
    case Nil
    then show ?thesis by simp
  next
    case (Cons x xs')
    have "lev xs' ys \<le> Suc (lev (x # xs') ys)"
      using IH [of xs' ys x] Cons by simp
    then show ?thesis using Cons by (auto simp: min_def)
  qed
  have A: "lev xs ys \<le> Suc (lev (c # xs) ys)"
  proof (cases ys)
    case Nil
    then show ?thesis by simp
  next
    case (Cons y ys')
    have b: "lev xs (y # ys') \<le> Suc (lev xs ys')"
      using IH [of xs ys' y] Cons by simp
    have a: "lev xs ys' \<le> Suc (lev (c # xs) ys')"
      using IH [of xs ys' c] Cons by simp
    show ?thesis using Cons a b by (auto simp: min_def)
  qed
  have A': "lev xs ys \<le> Suc (lev xs (c # ys))"
  proof (cases xs)
    case Nil
    then show ?thesis by simp
  next
    case (Cons x xs')
    have b: "lev (x # xs') ys \<le> Suc (lev xs' ys)"
      using IH [of xs' ys x] Cons by simp
    have a: "lev xs' ys \<le> Suc (lev xs' (c # ys))"
      using IH [of xs' ys c] Cons by simp
    show ?thesis using Cons a b by (auto simp: min_def)
  qed
  show ?case using A A' B B' by simp
qed

text \<open>Replacing the first character changes the distance by at most one.\<close>

lemma lev_subst_le: "lev (c # u) b \<le> Suc (lev (d # u) b)"
proof (induction b)
  case Nil
  show ?case by simp
next
  case (Cons y b)
  have g1: "lev (c # u) (y # b) \<le> Suc (lev u b)" by (auto simp: min_def)
  have g2: "lev (c # u) (y # b) \<le> Suc (lev u (y # b))"
    using lev_Cons_le [of u "y # b" c] by simp
  have g3: "lev (c # u) (y # b) \<le> Suc (lev (c # u) b)"
    using lev_Cons_le [of "c # u" b y] by simp
  show ?case using g1 g2 g3 Cons.IH by (auto simp: min_def)
qed

text \<open>An edit behind a common first character.\<close>

lemma lev_cong_le:
  assumes "\<And>b. lev u b \<le> Suc (lev u' b)"
  shows "lev (c # u) b \<le> Suc (lev (c # u') b)"
proof (induction b)
  case Nil
  show ?case using assms [of "[]"] by simp
next
  case (Cons y b)
  show ?case using assms [of b] assms [of "y # b"] Cons.IH by (auto simp: min_def)
qed

lemma lev_append_le:
  assumes "\<And>b. lev u b \<le> Suc (lev u' b)"
  shows "lev (xs @ u) b \<le> Suc (lev (xs @ u') b)"
proof (induction xs arbitrary: b)
  case Nil
  show ?case using assms by simp
next
  case (Cons x xs)
  show ?case using lev_cong_le [of "xs @ u" "xs @ u'" x b] Cons.IH by simp
qed

lemma lev_edit1: "edit1 a a' \<Longrightarrow> lev a b \<le> Suc (lev a' b)"
proof -
  assume "edit1 a a'"
  then obtain xs ys c where
    "(a = xs @ ys \<and> a' = xs @ c # ys) \<or> (a = xs @ c # ys \<and> a' = xs @ ys)
       \<or> (\<exists>d. c \<noteq> d \<and> a = xs @ c # ys \<and> a' = xs @ d # ys)"
    unfolding edit1_def by blast
  then consider (ins) "a = xs @ ys" "a' = xs @ c # ys"
    | (del) "a = xs @ c # ys" "a' = xs @ ys"
    | (sub) d where "a = xs @ c # ys" "a' = xs @ d # ys"
    by blast
  then show ?thesis
  proof cases
    case ins
    have "lev ys b \<le> Suc (lev (c # ys) b)" for b using lev_Cons_le [of ys b c] by simp
    from lev_append_le [of ys "c # ys", OF this] ins show ?thesis by simp
  next
    case del
    have "lev (c # ys) b \<le> Suc (lev ys b)" for b using lev_Cons_le [of ys b c] by simp
    from lev_append_le [of "c # ys" ys, OF this] del show ?thesis by simp
  next
    case sub
    have "lev (c # ys) b \<le> Suc (lev (d # ys) b)" for b by (rule lev_subst_le)
    from lev_append_le [of "c # ys" "d # ys", OF this] sub show ?thesis by simp
  qed
qed

lemma lev_lower: "edits n a b \<Longrightarrow> lev a b \<le> n"
proof (induction n arbitrary: a)
  case 0
  then show ?case by simp
next
  case (Suc n)
  then obtain m where m: "edit1 a m" "edits n m b" by auto
  from lev_edit1 [OF m(1), of b] Suc.IH [OF m(2)] show ?case by simp
qed

lemma edit1_Cons: "edit1 a b \<Longrightarrow> edit1 (c # a) (c # b)"
  unfolding edit1_def
  apply (elim exE)
  subgoal for xs ys d
    apply (rule exI [of _ "c # xs"])
    apply (rule exI [of _ ys])
    apply (rule exI [of _ d])
    apply auto
    done
  done

lemma edits_Cons: "edits n a b \<Longrightarrow> edits n (c # a) (c # b)"
proof (induction n arbitrary: a)
  case 0
  then show ?case by simp
next
  case (Suc n)
  then obtain m where m: "edit1 a m" "edits n m b" by auto
  from edit1_Cons [OF m(1)] Suc.IH [OF m(2)] show ?case by auto
qed

lemma edit1_insert: "edit1 a (c # a)"
  unfolding edit1_def by (rule exI [of _ "[]"]) auto

lemma edit1_delete: "edit1 (c # a) a"
  unfolding edit1_def by (rule exI [of _ "[]"]) auto

lemma edit1_subst: "c \<noteq> d \<Longrightarrow> edit1 (c # a) (d # a)"
  unfolding edit1_def by (rule exI [of _ "[]"]) auto

lemma edits_insertions: "edits (length ys) [] ys"
proof (induction ys)
  case Nil
  show ?case by simp
next
  case (Cons y ys)
  from edit1_insert [of "[]" y] edits_Cons [OF Cons, of y] show ?case by auto
qed

lemma edits_deletions: "edits (length xs) xs []"
proof (induction xs)
  case Nil
  show ?case by simp
next
  case (Cons x xs)
  from edit1_delete [of x xs] Cons show ?case by auto
qed

lemma lev_upper: "edits (lev a b) a b"
proof (induction a b rule: lev.induct)
  case (1 ys)
  show ?case using edits_insertions by simp
next
  case (2 x xs)
  show ?case using edits_deletions [of "x # xs"] by simp
next
  case (3 x xs y ys)
  show ?case
  proof (cases "x = y")
    case True
    with "3.IH"(1) edits_Cons show ?thesis by simp
  next
    case False
    have s: "edits (Suc (lev xs ys)) (x # xs) (y # ys)"
      using edit1_subst [OF False, of xs] edits_Cons [OF "3.IH"(2) [OF False], of y] by auto
    have i: "edits (Suc (lev (x # xs) ys)) (x # xs) (y # ys)"
      using edit1_insert [of "x # xs" y] edits_Cons [OF "3.IH"(3) [OF False], of y] by auto
    have d: "edits (Suc (lev xs (y # ys))) (x # xs) (y # ys)"
      using edit1_delete [of x xs] "3.IH"(4) [OF False] by auto
    show ?thesis using False s i d by (simp add: min_def)
  qed
qed

lemma edit1_sym: "edit1 a b \<Longrightarrow> edit1 b a"
  unfolding edit1_def by metis

lemma edit1_rev: "edit1 a b \<Longrightarrow> edit1 (rev a) (rev b)"
  unfolding edit1_def
  apply (elim exE)
  subgoal for xs ys c
    apply (rule exI [of _ "rev ys"])
    apply (rule exI [of _ "rev xs"])
    apply (rule exI [of _ c])
    apply auto
    done
  done

lemma edits_snoc: "edits n a m \<Longrightarrow> edit1 m b \<Longrightarrow> edits (Suc n) a b"
proof (induction n arbitrary: a)
  case 0
  then show ?case by auto
next
  case (Suc n)
  from Suc.prems(1) obtain m' where m': "edit1 a m'" "edits n m' m" by auto
  from Suc.IH [OF m'(2) Suc.prems(2)] m'(1) show ?case by auto
qed

lemma edits_sym: "edits n a b \<Longrightarrow> edits n b a"
proof (induction n arbitrary: a)
  case 0
  then show ?case by simp
next
  case (Suc n)
  then obtain m where m: "edit1 a m" "edits n m b" by auto
  from edits_snoc [OF Suc.IH [OF m(2)] edit1_sym [OF m(1)]] show ?case .
qed

lemma edits_rev: "edits n a b \<Longrightarrow> edits n (rev a) (rev b)"
proof (induction n arbitrary: a)
  case 0
  then show ?case by simp
next
  case (Suc n)
  then obtain m where m: "edit1 a m" "edits n m b" by auto
  from edit1_rev [OF m(1)] Suc.IH [OF m(2)] show ?case by auto
qed

lemma lev_editDistance: "lev a b = editDistance a b"
  unfolding editDistance_def
  by (rule Least_equality [symmetric]) (auto intro: lev_upper lev_lower)

lemma editDistance_sym: "editDistance a b = editDistance b a"
  unfolding editDistance_def using edits_sym by (metis (full_types))

lemma editDistance_rev: "editDistance (rev a) (rev b) = editDistance a b"
proof -
  have "edits n (rev a) (rev b) = edits n a b" for n
    using edits_rev [of n a b] edits_rev [of n "rev a" "rev b"] by auto
  then show ?thesis unfolding editDistance_def by simp
qed

text \<open>The matrix: row \<open>p\<close> holds the distances from the prefix \<open>p\<close> of \<open>str2\<close>.\<close>

lemma rowOf_hd: "hd (rowOf p q ds) = lev (rev p) (rev q)"
  by (cases ds) simp_all

lemma rowOf_Cons: "\<exists>r. rowOf p q ds = lev (rev p) (rev q) # r"
  by (cases ds) simp_all

lemma levRow_rowOf:
  "levRow c ds (rowOf p q ds) (lev (rev (p @ [c])) (rev q)) = tl (rowOf (p @ [c]) q ds)"
proof (induction ds arbitrary: q)
  case Nil
  show ?case by simp
next
  case (Cons d ds)
  obtain r where r: "rowOf p (q @ [d]) ds = lev (rev p) (rev (q @ [d])) # r"
    using rowOf_Cons by blast
  obtain r' where r': "rowOf (p @ [c]) (q @ [d]) ds = lev (rev (p @ [c])) (rev (q @ [d])) # r'"
    using rowOf_Cons by blast
  have v: "(if c = d then lev (rev p) (rev q)
            else min (lev (rev p) (rev q) + 1)
                   (min (lev (rev (p @ [c])) (rev q) + 1) (lev (rev p) (rev (q @ [d])) + 1)))
           = lev (rev (p @ [c])) (rev (q @ [d]))"
    by simp
  have "levRow c (d # ds) (rowOf p q (d # ds)) (lev (rev (p @ [c])) (rev q))
      = lev (rev (p @ [c])) (rev (q @ [d]))
          # levRow c ds (rowOf p (q @ [d]) ds) (lev (rev (p @ [c])) (rev (q @ [d])))"
    unfolding rowOf.simps r levRow.simps v Let_def by (simp only: r [symmetric])
  also have "\<dots> = rowOf (p @ [c]) (q @ [d]) ds"
    unfolding Cons.IH r' by simp
  finally show ?case by simp
qed

lemma levNextRow_rowOf: "levNextRow str1 (rowOf p [] str1) c = rowOf (p @ [c]) [] str1"
proof -
  obtain r where r: "rowOf (p @ [c]) [] str1 = lev (rev (p @ [c])) (rev []) # r"
    using rowOf_Cons by blast
  have h: "hd (rowOf p [] str1) + 1 = lev (rev (p @ [c])) (rev [])"
    by (simp add: rowOf_hd)
  show ?thesis
    unfolding levNextRow_def h levRow_rowOf r by simp
qed

lemma rowOf_Nil: "rowOf [] q ds = [length q ..< Suc (length q + length ds)]"
proof (induction ds arbitrary: q)
  case Nil
  show ?case by simp
next
  case (Cons d ds)
  have "[length q ..< Suc (length q + length (d # ds))]
      = length q # [Suc (length q) ..< Suc (length q + length (d # ds))]"
    by (rule upt_conv_Cons) simp
  then show ?case by (simp add: Cons.IH del: upt_Suc)
qed

lemma rowOf_last: "rowOf p q ds ! length ds = lev (rev p) (rev (q @ ds))"
  by (induction ds arbitrary: q) simp_all

lemma levMatrix_rowOf:
  "levMatrix str1 cs (rowOf p [] str1) ! length cs = rowOf (p @ cs) [] str1"
  by (induction cs arbitrary: p) (simp_all add: levNextRow_rowOf)

lemma levenshteinDistance_lev: "levenshteinDistance str1 str2 = lev (rev str2) (rev str1)"
proof -
  have "[0 ..< Suc (length str1)] = rowOf [] [] str1" by (simp add: rowOf_Nil)
  then show ?thesis
    unfolding levenshteinDistance_def
    using levMatrix_rowOf [of str1 str2 "[]"] rowOf_last [of str2 "[]" str1] by simp
qed

lemma levenshteinDistance_editDistance:
  "levenshteinDistance str1 str2 = editDistance str1 str2"
  by (simp add: levenshteinDistance_lev lev_editDistance editDistance_rev editDistance_sym)

lemma levenshteinDistance_edits: "edits (levenshteinDistance a b) a b"
  unfolding levenshteinDistance_lev
  using edits_sym [OF edits_rev [OF lev_upper [of "rev b" "rev a"]]] by simp

lemma levenshteinDistance_least: "edits n a b \<Longrightarrow> levenshteinDistance a b \<le> n"
  unfolding levenshteinDistance_lev
  using lev_lower [OF edits_rev [OF edits_sym]] by blast

text \<open>
  C5, as stated, fails: two long strings that differ by \<open>\<lfloor>maxLen / 10\<rfloor> + 3\<close> edits still
  match when one normalized string contains the other, because the containment test comes
  before the distance test. Here the answer is the correct answer followed by one more
  word (five code units, so the edit distance is 5 and the longer length is 27).
\<close>

theorem fuzzyMatch_containment_counterexample:
  "20 \<le> maxLength ''adenosine triphosphate only'' ''Adenosine triphosphate''
   \<and> editDistance (normalizeString ''adenosine triphosphate only'')
         (normalizeString ''Adenosine triphosphate'')
       = maxLength ''adenosine triphosphate only'' ''Adenosine triphosphate'' div 10 + 3
   \<and> fuzzyMatch ''adenosine triphosphate only'' ''Adenosine triphosphate''"
  unfolding levenshteinDistance_editDistance [symmetric] by code_simp

text \<open>
  C5, amended. \<open>levenshteinDistance\<close> is the Levenshtein edit distance: the least number of
  single-character insertions, deletions and substitutions that turn one string into the
  other. When both answers are non-empty and the normalized strings are neither equal nor
  contained in one another, \<open>fuzzyMatch\<close> holds exactly when the edit distance of the
  normalized strings is at most \<open>max 2 \<lfloor>maxLen / 10\<rfloor>\<close>. Two strings with \<open>maxLen \<ge> 20\<close>
  whose normalized forms differ by exactly \<open>\<lfloor>maxLen / 10\<rfloor>\<close> edits match. Two strings whose
  normalized forms differ by \<open>\<lfloor>maxLen / 10\<rfloor> + 3\<close> edits, neither containing the other, do
  not match (whatever their length, so in particular for long strings).
\<close>

theorem fuzzyMatch_threshold:
  "levenshteinDistance a b = editDistance a b
   \<and> edits (levenshteinDistance a b) a b
   \<and> (\<forall>n. edits n a b \<longrightarrow> levenshteinDistance a b \<le> n)
   \<and> (u \<noteq> [] \<and> c \<noteq> [] \<and> normalizeString u \<noteq> normalizeString c
      \<and> \<not> includes_str (normalizeString u) (normalizeString c)
      \<and> \<not> includes_str (normalizeString c) (normalizeString u)
    \<longrightarrow> fuzzyMatch u c
        = (editDistance (normalizeString u) (normalizeString c)
             \<le> max 2 (maxLength u c div 10)))
   \<and> (20 \<le> maxLength u c
      \<and> editDistance (normalizeString u) (normalizeString c) = maxLength u c div 10
    \<longrightarrow> fuzzyMatch u c)
   \<and> (\<not> includes_str (normalizeString u) (normalizeString c)
      \<and> \<not> includes_str (normalizeString c) (normalizeString u)
      \<and> editDistance (normalizeString u) (normalizeString c) = maxLength u c div 10 + 3
    \<longrightarrow> \<not> fuzzyMatch u c)"
proof -
  have E: "levenshteinDistance a b = editDistance a b"
    by (rule levenshteinDistance_editDistance)
  have U: "edits (levenshteinDistance a b) a b"
    by (rule levenshteinDistance_edits)
  have L: "\<forall>n. edits n a b \<longrightarrow> levenshteinDistance a b \<le> n"
    using levenshteinDistance_least by blast
  have T1: "fuzzyMatch u c
        = (editDistance (normalizeString u) (normalizeString c)
             \<le> max 2 (maxLength u c div 10))"
    if "u \<noteq> [] \<and> c \<noteq> [] \<and> normalizeString u \<noteq> normalizeString c
      \<and> \<not> includes_str (normalizeString u) (normalizeString c)
      \<and> \<not> includes_str (normalizeString c) (normalizeString u)"
    using that
    by (simp add: fuzzyMatch_def Let_def maxLength_def levenshteinDistance_editDistance)
  have T2: "fuzzyMatch u c"
    if a: "20 \<le> maxLength u c
      \<and> editDistance (normalizeString u) (normalizeString c) = maxLength u c div 10"
  proof -
    have "u \<noteq> []"
    proof
      assume "u = []"
      with a have "20 \<le> length (normalizeString c)
          \<and> length (normalizeString c) = length (normalizeString c) div 10"
        by (simp add: maxLength_def normalizeString_Nil levenshteinDistance_Nil1
              levenshteinDistance_editDistance [symmetric])
      then show False by arith
    qed
    moreover have "c \<noteq> []"
    proof
      assume "c = []"
      with a have "20 \<le> length (normalizeString u)
          \<and> length (normalizeString u) = length (normalizeString u) div 10"
        by (simp add: maxLength_def normalizeString_Nil levenshteinDistance_Nil2
              levenshteinDistance_editDistance [symmetric])
      then show False by arith
    qed
    ultimately show ?thesis
      using a
      by (simp add: fuzzyMatch_def Let_def maxLength_def levenshteinDistance_editDistance)
  qed
  have T3: "\<not> fuzzyMatch u c"
    if "\<not> includes_str (normalizeString u) (normalizeString c)
      \<and> \<not> includes_str (normalizeString c) (normalizeString u)
      \<and> editDistance (normalizeString u) (normalizeString c) = maxLength u c div 10 + 3"
    using that includes_str_refl [of "normalizeString c"]
    by (auto simp add: fuzzyMatch_def Let_def maxLength_def levenshteinDistance_editDistance)
  show ?thesis using E U L T1 T2 T3 by blast
qed

theorem fuzzyMatch_threshold_witness:
  "(20 \<le> maxLength ''Adenosine Triphosphaet'' ''adenosine triphosphate''
    \<and> editDistance (normalizeString ''Adenosine Triphosphaet'')
          (normalizeString ''adenosine triphosphate'')
        = maxLength ''Adenosine Triphosphaet'' ''adenosine triphosphate'' div 10
    \<and> fuzzyMatch ''Adenosine Triphosphaet'' ''adenosine triphosphate'')
   \<and> (''guanosine triphosphits'' \<noteq> [] \<and> ''adenosine triphosphate'' \<noteq> []
    \<and> normalizeString ''guanosine triphosphits'' \<noteq> normalizeString ''adenosine triphosphate''
    \<and> \<not> includes_str (normalizeString ''guanosine triphosphits'')
          (normalizeString ''adenosine triphosphate'')
    \<and> \<not> includes_str (normalizeString ''adenosine triphosphate'')
          (normalizeString ''guanosine triphosphits'')
    \<and> editDistance (normalizeString ''guanosine triphosphits'')
          (normalizeString ''adenosine triphosphate'')
        = maxLength ''guanosine triphosphits'' ''adenosine triphosphate'' div 10 + 3
    \<and> \<not> fuzzyMatch ''guanosine triphosphits'' ''adenosine triphosphate'')
   \<and> (edits 2 ''adenosine triphosphaet'' ''adenosine triphosphate''
    \<and> levenshteinDistance ''adenosine triphosphaet'' ''adenosine triphosphate'' \<le> 2)"
proof -
  have n1: "normalizeString ''Adenosine Triphosphaet'' = ''adenosine triphosphaet''"
    by code_simp
  have n2: "normalizeString ''adenosine triphosphate'' = ''adenosine triphosphate''"
    by code_simp
  have n3: "normalizeString ''guanosine triphosphits'' = ''guanosine triphosphits''"
    by code_simp
  have d1: "levenshteinDistance ''adenosine triphosphaet'' ''adenosine triphosphate'' = 2"
    by code_simp
  have d2: "levenshteinDistance ''guanosine triphosphits'' ''adenosine triphosphate'' = 5"
    by code_simp
  have i1: "\<not> includes_str ''guanosine triphosphits'' ''adenosine triphosphate''"
    by code_simp
  have i2: "\<not> includes_str ''adenosine triphosphate'' ''guanosine triphosphits''"
    by code_simp
  note t1 = fuzzyMatch_threshold [of "''adenosine triphosphaet''" "''adenosine triphosphate''"
      "''Adenosine Triphosphaet''" "''adenosine triphosphate''"]
  note t2 = fuzzyMatch_threshold [of "''guanosine triphosphits''" "''adenosine triphosphate''"
      "''guanosine triphosphits''" "''adenosine triphosphate''"]
  have e1: "editDistance ''adenosine triphosphaet'' ''adenosine triphosphate'' = 2"
    using t1 d1 by simp
  have e2: "editDistance ''guanosine triphosphits'' ''adenosine triphosphate'' = 5"
    using t2 d2 by simp
  have w1: "edits 2 ''adenosine triphosphaet'' ''adenosine triphosphate''"
    using t1 d1 by simp
  have l1: "levenshteinDistance ''adenosine triphosphaet'' ''adenosine triphosphate'' \<le> 2"
    using t1 w1 by blast
  have m1: "maxLength ''Adenosine Triphosphaet'' ''adenosine triphosphate'' = 22"
    by (simp add: maxLength_def n1 n2)
  have m2: "maxLength ''guanosine triphosphits'' ''adenosine triphosphate'' = 22"
    by (simp add: maxLength_def n3 n2)
  have f1: "fuzzyMatch ''Adenosine Triphosphaet'' ''adenosine triphosphate''"
    using t1 by (simp add: n1 n2 e1 m1)
  have f2: "\<not> fuzzyMatch ''guanosine triphosphits'' ''adenosine triphosphate''"
    using t2 by (simp add: n2 n3 e2 m2 i1 i2)
  show ?thesis
    using f1 f2 w1 l1 by (simp add: n1 n2 n3 e1 e2 m1 m2 i1 i2)
qed

subsection \<open>Diagram classifier\<close>

lemma countRuns_dropWhile: "countRuns False (dropWhile isSpace s) = countRuns False s"
  by (induction s) simp_all

lemma countRuns_nonspace:
  "\<forall>c \<in> set tok. \<not> isSpace c \<Longrightarrow>
   countRuns b (tok @ rest) = (if tok = [] then countRuns b rest
      else (if b then 0 else 1) + countRuns True rest)"
  by (induction tok arbitrary: b) auto

lemma countRuns_all_spaces: "\<forall>c \<in> set zs. isSpace c \<Longrightarrow> countRuns b zs = 0"
  by (induction zs arbitrary: b) simp_all

lemma countRuns_spaces: "\<forall>c \<in> set zs. isSpace c \<Longrightarrow> countRuns b (xs @ zs) = countRuns b xs"
proof (induction xs arbitrary: b)
  case Nil
  then show ?case by (simp add: countRuns_all_spaces)
next
  case (Cons x xs)
  then show ?case by simp
qed

lemma splitWhitespace_count:
  "length (filter (\<lambda>word. word \<noteq> []) (splitWhitespace s)) = countRuns False s"
proof (induction s rule: splitWhitespace.induct)
  case (1 s)
  define tok where "tok = takeWhile (\<lambda>c. \<not> isSpace c) s"
  define rest where "rest = dropWhile (\<lambda>c. \<not> isSpace c) s"
  have s: "s = tok @ rest" by (simp add: tok_def rest_def)
  have tok: "\<forall>c \<in> set tok. \<not> isSpace c"
    by (auto simp: tok_def dest: set_takeWhileD)
  have unf: "splitWhitespace s
      = (if rest = [] then [tok] else tok # splitWhitespace (dropWhile isSpace rest))"
    unfolding tok_def rest_def by (subst splitWhitespace.simps) (simp only: Let_def)
  show ?case
  proof (cases "rest = []")
    case True
    then have "splitWhitespace s = [tok]"
      using unf by simp
    moreover have "countRuns False s = (if tok = [] then 0 else 1)"
      using countRuns_nonspace [OF tok, of False rest] True s by simp
    ultimately show ?thesis by simp
  next
    case False
    then obtain sp r where rest: "rest = sp # r" by (cases rest) auto
    have "dropWhile (\<lambda>c. \<not> isSpace c) s = sp # r"
      using rest by (simp add: rest_def)
    then have sp: "isSpace sp" by (simp add: dropWhile_eq_Cons_conv)
    have split: "splitWhitespace s = tok # splitWhitespace (dropWhile isSpace rest)"
      using False by (simp only: unf if_False)
    have ih: "length (filter (\<lambda>word. word \<noteq> []) (splitWhitespace (dropWhile isSpace rest)))
        = countRuns False (dropWhile isSpace rest)"
      using "1.IH" [OF tok_def rest_def False] .
    have "countRuns False s
        = (if tok = [] then 0 else 1) + countRuns False (dropWhile isSpace rest)"
      using countRuns_nonspace [OF tok, of False rest] s rest sp
      by (simp add: countRuns_dropWhile)
    with split ih show ?thesis by simp
  qed
qed

lemma trim_decomp:
  "\<exists>zs. dropWhile isSpace s = trim s @ zs \<and> (\<forall>z \<in> set zs. isSpace z)"
proof -
  let ?d = "dropWhile isSpace s"
  have "rev (dropWhile isSpace (rev ?d)) @ rev (takeWhile isSpace (rev ?d))
      = rev (takeWhile isSpace (rev ?d) @ dropWhile isSpace (rev ?d))"
    by (simp only: rev_append)
  also have "\<dots> = ?d"
    by (simp only: takeWhile_dropWhile_id rev_rev_ident)
  finally have "?d = rev (dropWhile isSpace (rev ?d)) @ rev (takeWhile isSpace (rev ?d))"
    by simp
  moreover have "\<forall>z \<in> set (rev (takeWhile isSpace (rev ?d))). isSpace z"
    by (auto dest: set_takeWhileD)
  ultimately show ?thesis unfolding trim_def by blast
qed

lemma countRuns_trim: "countRuns False (trim s) = countRuns False s"
proof -
  obtain zs where "dropWhile isSpace s = trim s @ zs" "\<forall>z \<in> set zs. isSpace z"
    using trim_decomp by blast
  then have "countRuns False (dropWhile isSpace s) = countRuns False (trim s)"
    by (simp add: countRuns_spaces)
  then show ?thesis by (simp add: countRuns_dropWhile)
qed

lemma wordCount_countWords: "wordCount txt = countWords txt"
  by (simp add: wordCount_def countWords_def splitWhitespace_count countRuns_trim)

lemma shouldUseDiagramUnderstanding_eq:
  "shouldUseDiagramUnderstanding ftype extractedText
     = (toLowerCase ftype \<in> set imageTypes \<and> countWords extractedText < 50)"
  by (simp add: shouldUseDiagramUnderstanding_def wordCount_countWords)

lemma imageTypes_image: "t \<in> set imageTypes \<Longrightarrow> startsWith t ''image/''"
  by (auto simp: imageTypes_def)

text \<open>
  C7, as stated, fails: the function accepts the five types it lists, not every image MIME
  type. A bitmap or a TIFF image with two words of text is an image with fewer than 50
  words, and the function returns false for it.
\<close>

theorem shouldUseDiagramUnderstanding_bmp_counterexample:
  "specImageMimeType ''image/bmp'' \<and> specImageMimeType ''image/tiff''
   \<and> countWords ''Figure 1'' < 50 \<and> wordCount ''Figure 1'' < 50
   \<and> \<not> shouldUseDiagramUnderstanding ''image/bmp'' ''Figure 1''
   \<and> \<not> shouldUseDiagramUnderstanding ''image/tiff'' ''Figure 1''"
proof -
  have b: "toLowerCase ''image/bmp'' \<notin> set imageTypes" by code_simp
  have t: "toLowerCase ''image/tiff'' \<notin> set imageTypes" by code_simp
  have s: "specImageMimeType ''image/bmp''" "specImageMimeType ''image/tiff''"
    unfolding specImageMimeType_def by code_simp+
  have w: "countWords ''Figure 1'' = 2" by code_simp
  show ?thesis
    using b t s w by (simp add: shouldUseDiagramUnderstanding_eq wordCount_countWords)
qed

text \<open>
  C7, amended. \<open>shouldUseDiagramUnderstanding\<close> is a function of the file type and the
  extracted text alone. It returns true exactly when the file type, compared without regard
  to case, is one of \<open>image/jpeg\<close>, \<open>image/jpg\<close>, \<open>image/png\<close>, \<open>image/webp\<close> and \<open>image/gif\<close>
  and the text has fewer than 50 words, where the words are the maximal runs of
  non-white-space code units (which is what the trim, split and filter of the source
  count). So it returns true only for image MIME types, and false for \<open>application/pdf\<close>,
  for every type that is not an image type, and for every text of 50 words or more; for
  one of the five types, 10 words give true and 80 give false.
\<close>

theorem shouldUseDiagramUnderstanding_iff:
  "shouldUseDiagramUnderstanding ftype extractedText
     = (toLowerCase ftype \<in> {''image/jpeg'', ''image/jpg'', ''image/png'', ''image/webp'',
                               ''image/gif''}
        \<and> countWords extractedText < 50)
   \<and> wordCount extractedText = countWords extractedText
   \<and> (shouldUseDiagramUnderstanding ftype extractedText \<longrightarrow> specImageMimeType ftype)
   \<and> \<not> shouldUseDiagramUnderstanding ''application/pdf'' extractedText
   \<and> (\<not> specImageMimeType ftype \<longrightarrow> \<not> shouldUseDiagramUnderstanding ftype extractedText)
   \<and> (50 \<le> countWords extractedText \<longrightarrow> \<not> shouldUseDiagramUnderstanding ftype extractedText)
   \<and> (toLowerCase ftype \<in> {''image/jpeg'', ''image/jpg'', ''image/png'', ''image/webp'',
                              ''image/gif''}
        \<and> countWords extractedText = 10
        \<longrightarrow> shouldUseDiagramUnderstanding ftype extractedText)
   \<and> (toLowerCase ftype \<in> {''image/jpeg'', ''image/jpg'', ''image/png'', ''image/webp'',
                              ''image/gif''}
        \<and> countWords extractedText = 80
        \<longrightarrow> \<not> shouldUseDiagramUnderstanding ftype extractedText)"
proof -
  have pdf: "toLowerCase ''application/pdf'' \<notin> set imageTypes"
    by code_simp
  have five: "set imageTypes
      = {''image/jpeg'', ''image/jpg'', ''image/png'', ''image/webp'', ''image/gif''}"
    by (simp add: imageTypes_def)
  have img: "specImageMimeType ftype" if "toLowerCase ftype \<in> set imageTypes"
    unfolding specImageMimeType_def using that by (rule imageTypes_image)
  have A: "shouldUseDiagramUnderstanding ftype extractedText
     = (toLowerCase ftype \<in> {''image/jpeg'', ''image/jpg'', ''image/png'', ''image/webp'',
                               ''image/gif''}
        \<and> countWords extractedText < 50)"
    unfolding five [symmetric] by (rule shouldUseDiagramUnderstanding_eq)
  have B: "wordCount extractedText = countWords extractedText"
    by (rule wordCount_countWords)
  have C: "shouldUseDiagramUnderstanding ftype extractedText \<longrightarrow> specImageMimeType ftype"
    using img by (simp add: shouldUseDiagramUnderstanding_eq)
  have D: "\<not> shouldUseDiagramUnderstanding ''application/pdf'' extractedText"
    using pdf by (simp add: shouldUseDiagramUnderstanding_eq)
  have E: "50 \<le> countWords extractedText
      \<longrightarrow> \<not> shouldUseDiagramUnderstanding ftype extractedText"
    by (simp add: shouldUseDiagramUnderstanding_eq)
  have F: "toLowerCase ftype \<in> {''image/jpeg'', ''image/jpg'', ''image/png'', ''image/webp'',
                              ''image/gif''}
        \<and> countWords extractedText = 10
        \<longrightarrow> shouldUseDiagramUnderstanding ftype extractedText"
    unfolding five [symmetric] by (simp add: shouldUseDiagramUnderstanding_eq)
  have G: "toLowerCase ftype \<in> {''image/jpeg'', ''image/jpg'', ''image/png'', ''image/webp'',
                              ''image/gif''}
        \<and> countWords extractedText = 80
        \<longrightarrow> \<not> shouldUseDiagramUnderstanding ftype extractedText"
    by (simp add: shouldUseDiagramUnderstanding_eq)
  show ?thesis using A B C D E F G by blast
qed

theorem shouldUseDiagramUnderstanding_iff_witness:
  "(\<not> specImageMimeType ''text/plain''
      \<and> \<not> shouldUseDiagramUnderstanding ''text/plain'' ''Figure 1'')
   \<and> (toLowerCase ''image/PNG'' \<in> {''image/jpeg'', ''image/jpg'', ''image/png'', ''image/webp'',
                                      ''image/gif''}
      \<and> countWords ''Fig. 3:  the Krebs cycle,   with ATP and NADH yields '' = 10
      \<and> shouldUseDiagramUnderstanding ''image/PNG''
            ''Fig. 3:  the Krebs cycle,   with ATP and NADH yields ''
      \<and> specImageMimeType ''image/PNG'')
   \<and> (toLowerCase ''image/jpeg'' \<in> {''image/jpeg'', ''image/jpg'', ''image/png'', ''image/webp'',
                                       ''image/gif''}
      \<and> countWords (concat (replicate 80 ''word '')) = 80
      \<and> 50 \<le> countWords (concat (replicate 80 ''word ''))
      \<and> \<not> shouldUseDiagramUnderstanding ''image/jpeg'' (concat (replicate 80 ''word '')))"
proof -
  let ?five = "{''image/jpeg'', ''image/jpg'', ''image/png'', ''image/webp'', ''image/gif''}"
  have t: "\<not> specImageMimeType ''text/plain''"
    unfolding specImageMimeType_def by code_simp
  have p: "toLowerCase ''image/PNG'' = ''image/png''" by code_simp
  have j: "toLowerCase ''image/jpeg'' = ''image/jpeg''" by code_simp
  have w10: "countWords ''Fig. 3:  the Krebs cycle,   with ATP and NADH yields '' = 10"
    by code_simp
  have w80: "countWords (concat (replicate 80 ''word '')) = 80"
    by code_simp
  note t1 = shouldUseDiagramUnderstanding_iff [of "''text/plain''" "''Figure 1''"]
  note t2 = shouldUseDiagramUnderstanding_iff
        [of "''image/PNG''" "''Fig. 3:  the Krebs cycle,   with ATP and NADH yields ''"]
  note t3 = shouldUseDiagramUnderstanding_iff
        [of "''image/jpeg''" "concat (replicate 80 ''word '')"]
  have r1: "\<not> shouldUseDiagramUnderstanding ''text/plain'' ''Figure 1''"
    using t1 t by blast
  have p5: "toLowerCase ''image/PNG'' \<in> ?five" by (simp add: p)
  have j5: "toLowerCase ''image/jpeg'' \<in> ?five" by (simp add: j)
  have r2: "shouldUseDiagramUnderstanding ''image/PNG''
            ''Fig. 3:  the Krebs cycle,   with ATP and NADH yields ''"
    using t2 p5 w10 by blast
  have r2': "specImageMimeType ''image/PNG''"
    using t2 r2 by blast
  have r3: "\<not> shouldUseDiagramUnderstanding ''image/jpeg'' (concat (replicate 80 ''word ''))"
    using t3 j5 w80 by blast
  show ?thesis
    using t r1 p5 w10 r2 r2' j5 w80 r3 by simp
qed

subsection \<open>Document chunker\<close>

lemma showNat_digits: "c \<in> set (showNat n) \<Longrightarrow> 48 \<le> (of_char c :: nat) \<and> (of_char c :: nat) \<le> 57"
proof (induction n rule: showNat.induct)
  case (1 n)
  show ?case
  proof (cases "n < 10")
    case True
    with "1.prems" have "c = char_of (48 + n)"
      by (subst (asm) showNat.simps) simp
    with True show ?thesis by simp
  next
    case False
    with "1.prems" have "c \<in> set (showNat (n div 10)) \<or> c = char_of (48 + n mod 10)"
      by (subst (asm) showNat.simps) auto
    then show ?thesis
    proof
      assume "c \<in> set (showNat (n div 10))"
      with "1.IH" False show ?thesis by simp
    next
      assume c: "c = char_of (48 + n mod 10)"
      have "n mod 10 < 10" by simp
      then have "48 + n mod 10 < 256" by linarith
      with c show ?thesis by simp
    qed
  qed
qed

lemma readNat_showNat: "readNat (showNat n) = n"
proof (induction n rule: showNat.induct)
  case (1 n)
  show ?case
  proof (cases "n < 10")
    case True
    then show ?thesis by (subst showNat.simps) (simp add: readNat_def)
  next
    case False
    have "n mod 10 < 10" by simp
    then have lt: "48 + n mod 10 < 256" by linarith
    have "readNat (showNat n) = readNat (showNat (n div 10)) * 10 + n mod 10"
      using False lt by (subst showNat.simps) (simp add: readNat_def)
    with "1.IH" False show ?thesis by simp
  qed
qed

lemma showNat_inj: "showNat a = showNat b \<Longrightarrow> a = b"
  by (metis readNat_showNat)


lemma showNat_no_underscore: "CHR ''_'' \<notin> set (showNat n)"
proof
  assume "CHR ''_'' \<in> set (showNat n)"
  from showNat_digits [OF this] show False by simp
qed

lemma takeWhile_sep: "u \<notin> set xs \<Longrightarrow> takeWhile (\<lambda>c. c \<noteq> u) (xs @ u # r) = xs"
  by (induction xs) auto

lemma append_sep_cancel:
  assumes "xs @ u # r1 = ys @ u # r2" "u \<notin> set xs" "u \<notin> set ys"
  shows "xs = ys"
proof -
  have "takeWhile (\<lambda>c. c \<noteq> u) (xs @ u # r1) = xs"
    using assms(2) by (rule takeWhile_sep)
  moreover have "takeWhile (\<lambda>c. c \<noteq> u) (ys @ u # r2) = ys"
    using assms(3) by (rule takeWhile_sep)
  ultimately show ?thesis using assms(1) by simp
qed

lemma chunkFileName_inj:
  assumes "chunkFileName env b i n = chunkFileName env b j n"
  shows "i = j"
proof -
  from assms have "showNat (i + 1) @ CHR ''_'' # (''of_'' @ showNat n @ ''_'' @ showNat (dateNow env i) @ ''.pdf'')
      = showNat (j + 1) @ CHR ''_'' # (''of_'' @ showNat n @ ''_'' @ showNat (dateNow env j) @ ''.pdf'')"
    by (simp add: chunkFileName_def)
  then have "showNat (i + 1) = showNat (j + 1)"
    by (rule append_sep_cancel) (rule showNat_no_underscore)+
  then show ?thesis using showNat_inj by fastforce
qed

lemma chunkPath_inj:
  "pathJoin t (chunkFileName env b i n) = pathJoin t (chunkFileName env b j n) \<Longrightarrow> i = j"
  by (simp add: pathJoin_def chunkFileName_inj)

lemma startsWith_append: "startsWith (t @ b) t"
  by (induction t) simp_all

lemma includes_str_startsWith: "startsWith s t \<Longrightarrow> includes_str s t"
proof (cases s)
  case Nil
  assume "startsWith s t"
  with Nil show ?thesis by (cases t) simp_all
next
  case (Cons c cs)
  assume "startsWith s t"
  with Cons show ?thesis by simp
qed

lemma includes_str_append: "includes_str (a @ t @ b) t"
proof (induction a)
  case Nil
  show ?case by (simp add: includes_str_startsWith startsWith_append)
next
  case (Cons x a)
  then show ?case by simp
qed

lemma chunkPath_includes:
  "includes_str (pathJoin t (chunkFileName env b i n)) ''_chunk_''"
proof -
  have "pathJoin t (chunkFileName env b i n)
      = (t @ ''/'' @ b) @ ''_chunk_'' @ (showNat (i + 1) @ ''_of_'' @ showNat n
           @ ''_'' @ showNat (dateNow env i) @ ''.pdf'')"
    by (simp add: pathJoin_def chunkFileName_def)
  then show ?thesis by (simp only: includes_str_append)
qed

lemma pageRange_take_drop: "pageRange pages i = take 15 (drop (i * 15) pages)"
proof -
  have "map (\<lambda>k. pages ! k) [i * 15 ..< min (i * 15 + 15) (length pages)]
      = take 15 (drop (i * 15) pages)"
    by (rule nth_equalityI) (auto simp: min_def split: if_splits)
  then show ?thesis by (simp add: pageRange_def)
qed

lemma concat_pageRange: "concat (map (pageRange pages) [0 ..< n]) = take (n * 15) pages"
proof (induction n)
  case 0
  show ?case by simp
next
  case (Suc n)
  have "take (n * 15) pages @ take 15 (drop (n * 15) pages) = take (n * 15 + 15) pages"
    by (simp add: take_add)
  with Suc show ?case by (simp add: pageRange_take_drop add.commute)
qed


lemma writeChunks_ok:
  assumes "\<forall>p. \<not> writeFails env p"
  shows "writeChunks env src b t n idxs fs acc
     = (fold (\<lambda>i f. f(pathJoin t (chunkFileName env b i n) \<mapsto> PdfDoc (pageRange src i))) idxs fs,
        Inr (acc @ map (\<lambda>i. pathJoin t (chunkFileName env b i n)) idxs))"
  using assms
  by (induction idxs arbitrary: fs acc)
     (simp_all add: Let_def pageRange_def MAX_PAGES_PER_CHUNK_def)

lemma fold_upd_other:
  "p \<notin> cp ` set idxs \<Longrightarrow> fold (\<lambda>i f. f(cp i \<mapsto> g i)) idxs fs p = fs p"
  by (induction idxs arbitrary: fs) auto

lemma fold_upd_hit:
  assumes "\<forall>i j. cp i = cp j \<longrightarrow> i = j" "distinct idxs" "i \<in> set idxs"
  shows "fold (\<lambda>i f. f(cp i \<mapsto> g i)) idxs fs (cp i) = Some (g i)"
  using assms(2,3)
proof (induction idxs arbitrary: fs)
  case Nil
  then show ?case by simp
next
  case (Cons k idxs)
  let ?F = "\<lambda>i f. f(cp i \<mapsto> g i)"
  have step: "fold ?F (k # idxs) fs = fold ?F idxs (fs(cp k \<mapsto> g k))"
    by (simp only: fold_simps)
  show ?case
  proof (cases "i = k")
    case True
    with Cons.prems have "cp k \<notin> cp ` set idxs"
      using assms(1) by auto
    then have "fold ?F idxs (fs(cp k \<mapsto> g k)) (cp k) = (fs(cp k \<mapsto> g k)) (cp k)"
      by (rule fold_upd_other)
    also have "\<dots> = Some (g k)" by (rule fun_upd_same)
    finally show ?thesis unfolding step True .
  next
    case False
    with Cons.prems have "distinct idxs" "i \<in> set idxs" by simp_all
    then have "fold ?F idxs (fs(cp k \<mapsto> g k)) (cp i) = Some (g i)"
      by (rule Cons.IH)
    then show ?thesis unfolding step .
  qed
qed

lemma numChunks_ceiling: "int ((N + 14) div 15) = \<lceil>real N / 15\<rceil>"
proof -
  have "\<lceil>real N / 15\<rceil> = \<lceil>real_of_int (int N) / real_of_int 15\<rceil>" by simp
  also have "\<dots> = - ((- int N) div 15)"
    by (simp only: ceiling_divide_eq_div)
  also have "\<dots> = int ((N + 14) div 15)" by (simp add: zdiv_int)
  finally show ?thesis by simp
qed

text \<open>
  C3. Let the file at \<open>sourcePath\<close> be a PDF of \<open>N\<close> pages, and let no write fail. Then the
  chunker returns (it does not raise). If \<open>N \<le> 15\<close> the result is the one-element list with
  the original path, and nothing is written. If \<open>N > 15\<close> the result has \<open>\<lceil>N / 15\<rceil>\<close> distinct
  paths; the file at position \<open>i\<close> holds the pages \<open>[i\<cdot>15, min(i\<cdot>15 + 15, N))\<close> of the source,
  between 1 and 15 of them; each range ends where the next begins; the chunks, concatenated
  in order, are the pages of the source; and no other file is touched.
\<close>

theorem splitPdfIntoChunks_pages:
  assumes "fs sourcePath = Some (PdfDoc pages)" and "\<forall>p. \<not> writeFails env p"
  shows "case splitPdfIntoChunks env fs sourcePath tempDir of
           (fs', Inl err) \<Rightarrow> False
         | (fs', Inr chunks) \<Rightarrow>
             (length pages \<le> 15 \<longrightarrow> chunks = [sourcePath] \<and> fs' = fs)
             \<and> (length pages > 15 \<longrightarrow>
                  int (length chunks) = \<lceil>real (length pages) / 15\<rceil>
                  \<and> distinct chunks
                  \<and> (\<forall>i < length chunks.
                        fs' (chunks ! i) = Some (PdfDoc (pageRange pages i))
                        \<and> pageRange pages i
                            = take (min (i * 15 + 15) (length pages) - i * 15) (drop (i * 15) pages)
                        \<and> 0 < length (pageRange pages i) \<and> length (pageRange pages i) \<le> 15
                        \<and> (Suc i < length chunks
                             \<longrightarrow> min (i * 15 + 15) (length pages) = Suc i * 15))
                  \<and> concat (map (pageRange pages) [0 ..< length chunks]) = pages
                  \<and> (\<forall>p. p \<notin> set chunks \<longrightarrow> fs' p = fs p))"
proof (cases "length pages \<le> 15")
  case True
  with assms(1) show ?thesis
    by (simp add: splitPdfIntoChunks_def MAX_PAGES_PER_CHUNK_def)
next
  case False
  define n where "n = (length pages + 14) div 15"
  define cp where "cp = (\<lambda>i. pathJoin tempDir (chunkFileName env (basename env sourcePath) i n))"
  define fs' where "fs' = fold (\<lambda>i f. f(cp i \<mapsto> PdfDoc (pageRange pages i))) [0 ..< n] fs"
  have res: "splitPdfIntoChunks env fs sourcePath tempDir = (fs', Inr (map cp [0 ..< n]))"
    using assms(1) False writeChunks_ok [OF assms(2), of pages "basename env sourcePath" tempDir n "[0 ..< n]" fs "[]"]
    by (simp add: splitPdfIntoChunks_def MAX_PAGES_PER_CHUNK_def n_def cp_def fs'_def Let_def)
  have inj: "\<forall>i j. cp i = cp j \<longrightarrow> i = j"
    by (auto simp: cp_def dest: chunkPath_inj)
  have len: "int n = \<lceil>real (length pages) / 15\<rceil>"
    unfolding n_def by (rule numChunks_ceiling)
  have dist: "distinct (map cp [0 ..< n])"
    using inj by (simp add: distinct_map inj_on_def)
  have decomp: "length pages + 14 = n * 15 + (length pages + 14) mod 15"
    unfolding n_def by simp
  have rem: "(length pages + 14) mod 15 < 15" by simp
  have bound: "i * 15 < length pages" if "i < n" for i
  proof -
    from that have "Suc i * 15 \<le> n * 15" by (simp only: mult_le_mono1 Suc_leI)
    with decomp show ?thesis by simp
  qed
  have cover: "length pages \<le> n * 15"
    using decomp rem by linarith
  have each: "fs' (map cp [0 ..< n] ! i) = Some (PdfDoc (pageRange pages i))
      \<and> pageRange pages i = take (min (i * 15 + 15) (length pages) - i * 15) (drop (i * 15) pages)
      \<and> 0 < length (pageRange pages i) \<and> length (pageRange pages i) \<le> 15
      \<and> (Suc i < n \<longrightarrow> min (i * 15 + 15) (length pages) = Suc i * 15)" if "i < n" for i
  proof -
    have "fs' (cp i) = Some (PdfDoc (pageRange pages i))"
      unfolding fs'_def using inj _ _
      by (rule fold_upd_hit) (use that in simp_all)
    moreover have "pageRange pages i
        = take (min (i * 15 + 15) (length pages) - i * 15) (drop (i * 15) pages)"
      by (simp add: pageRange_take_drop min_def)
    moreover have "0 < length (pageRange pages i)" "length (pageRange pages i) \<le> 15"
      using bound [OF that] by (simp_all add: pageRange_def)
    moreover have "Suc i < n \<longrightarrow> min (i * 15 + 15) (length pages) = Suc i * 15"
      using bound [of "Suc i"] by auto
    ultimately show ?thesis using that by simp
  qed
  have cat: "concat (map (pageRange pages) [0 ..< n]) = pages"
    using cover by (simp add: concat_pageRange)
  have frame: "\<forall>p. p \<notin> set (map cp [0 ..< n]) \<longrightarrow> fs' p = fs p"
    unfolding fs'_def by (auto intro: fold_upd_other)
  have L: "length (map cp [0 ..< n]) = n" by simp
  show ?thesis
    unfolding res prod.case sum.case L
    using False len dist each cat frame by blast
qed


theorem splitPdfIntoChunks_pages_witness:
  "[''/tmp/notes.pdf'' \<mapsto> PdfDoc [0 ..< 38 :: nat]] ''/tmp/notes.pdf'' = Some (PdfDoc [0 ..< 38])
   \<and> (case splitPdfIntoChunks quietEnv [''/tmp/notes.pdf'' \<mapsto> PdfDoc [0 ..< 38 :: nat]]
             ''/tmp/notes.pdf'' ''/tmp'' of
         (fs', Inl err) \<Rightarrow> False
       | (fs', Inr chunks) \<Rightarrow>
           length chunks = 3
           \<and> map (\<lambda>i. length (pageRange [0 ..< 38 :: nat] i)) [0 ..< length chunks] = [15, 15, 8]
           \<and> concat (map (pageRange [0 ..< 38 :: nat]) [0 ..< length chunks]) = [0 ..< 38])"
proof -
  let ?fs = "[''/tmp/notes.pdf'' \<mapsto> PdfDoc [0 ..< 38 :: nat]]"
  have a: "?fs ''/tmp/notes.pdf'' = Some (PdfDoc [0 ..< 38])" by simp
  have b: "\<forall>p. \<not> writeFails quietEnv p" by (simp add: quietEnv_def)
  have c: "\<lceil>real (length [0 ..< 38 :: nat]) / 15\<rceil> = 3" by simp
  have d: "map (\<lambda>i. length (pageRange [0 ..< 38 :: nat] i)) [0 ..< 3] = [15, 15, 8]"
    by (simp add: pageRange_def upt_rec [of _ 3] del: upt_Suc)
  show ?thesis
    using splitPdfIntoChunks_pages [where fs = ?fs and sourcePath = "''/tmp/notes.pdf''"
        and pages = "[0 ..< 38]" and env = quietEnv and tempDir = "''/tmp''"] a b c d
    by (auto split: prod.splits sum.splits)
qed

subsection \<open>Chunk cleanup\<close>

lemma cleanupPdfChunks_step:
  "cleanupPdfChunks env (q # paths) (fs, logs)
     = cleanupPdfChunks env paths
         (if fs q \<noteq> None \<and> includes_str q ''_chunk_'' \<and> \<not> unlinkFails env q
          then fs(q := None) else fs,
          logs @ (if fs q \<noteq> None \<and> includes_str q ''_chunk_''
                  then [if unlinkFails env q then LogError q else LogInfo q] else []))"
  by (simp del: includes_str.simps)

lemma cleanupPdfChunks_fs:
  "fst (cleanupPdfChunks env paths (fs, logs)) p
     = (if p \<in> set paths \<and> fs p \<noteq> None \<and> includes_str p ''_chunk_'' \<and> \<not> unlinkFails env p
        then None else fs p)"
proof (induction paths arbitrary: fs logs)
  case Nil
  show ?case by simp
next
  case (Cons q paths)
  let ?fs1 = "if fs q \<noteq> None \<and> includes_str q ''_chunk_'' \<and> \<not> unlinkFails env q
          then fs(q := None) else fs"
  have "fst (cleanupPdfChunks env (q # paths) (fs, logs)) p
      = (if p \<in> set paths \<and> ?fs1 p \<noteq> None \<and> includes_str p ''_chunk_'' \<and> \<not> unlinkFails env p
         then None else ?fs1 p)"
    by (simp only: cleanupPdfChunks_step Cons.IH)
  also have "\<dots> = (if p \<in> set (q # paths) \<and> fs p \<noteq> None \<and> includes_str p ''_chunk_''
         \<and> \<not> unlinkFails env p then None else fs p)"
    by (auto simp del: includes_str.simps)
  finally show ?case .
qed

lemma cleanupPdfChunks_logs:
  "\<exists>new. snd (cleanupPdfChunks env paths (fs, logs)) = logs @ new
     \<and> (\<forall>e \<in> set new. \<exists>p \<in> set paths. fs p \<noteq> None \<and> includes_str p ''_chunk_''
            \<and> (if unlinkFails env p then e = LogError p else e = LogInfo p))"
proof (induction paths arbitrary: fs logs)
  case Nil
  show ?case by simp
next
  case (Cons q paths)
  let ?del = "fs q \<noteq> None \<and> includes_str q ''_chunk_''"
  let ?fs1 = "if fs q \<noteq> None \<and> includes_str q ''_chunk_'' \<and> \<not> unlinkFails env q
      then fs(q := None) else fs"
  let ?e1 = "if ?del then [if unlinkFails env q then LogError q else LogInfo q] else []"
  have step: "cleanupPdfChunks env (q # paths) (fs, logs)
      = cleanupPdfChunks env paths (?fs1, logs @ ?e1)"
    by (rule cleanupPdfChunks_step)
  from Cons.IH [of ?fs1 "logs @ ?e1"] obtain new where
    new: "snd (cleanupPdfChunks env paths (?fs1, logs @ ?e1)) = (logs @ ?e1) @ new"
      "\<forall>e \<in> set new. \<exists>p \<in> set paths. ?fs1 p \<noteq> None \<and> includes_str p ''_chunk_''
            \<and> (if unlinkFails env p then e = LogError p else e = LogInfo p)"
    by blast
  have sub: "?fs1 p \<noteq> None \<Longrightarrow> fs p \<noteq> None" for p
    by (auto split: if_splits)
  have "\<forall>e \<in> set (?e1 @ new). \<exists>p \<in> set (q # paths). fs p \<noteq> None \<and> includes_str p ''_chunk_''
            \<and> (if unlinkFails env p then e = LogError p else e = LogInfo p)"
  proof
    fix e assume "e \<in> set (?e1 @ new)"
    then consider "e \<in> set ?e1" | "e \<in> set new" by auto
    then show "\<exists>p \<in> set (q # paths). fs p \<noteq> None \<and> includes_str p ''_chunk_''
            \<and> (if unlinkFails env p then e = LogError p else e = LogInfo p)"
    proof cases
      case 1
      then have "?del \<and> (if unlinkFails env q then e = LogError q else e = LogInfo q)"
        by (auto split: if_splits)
      then show ?thesis by (intro bexI [of _ q]) simp_all
    next
      case 2
      with new(2) obtain p where "p \<in> set paths" "?fs1 p \<noteq> None" "includes_str p ''_chunk_''"
        "if unlinkFails env p then e = LogError p else e = LogInfo p"
        by blast
      with sub [of p] show ?thesis by (intro bexI [of _ p]) simp_all
    qed
  qed
  moreover have "snd (cleanupPdfChunks env (q # paths) (fs, logs)) = logs @ (?e1 @ new)"
    using new(1) by (simp only: step append_assoc)
  ultimately show ?case by blast
qed

lemma cleanupPdfChunks_append:
  "cleanupPdfChunks env (ps @ qs) st = cleanupPdfChunks env qs (cleanupPdfChunks env ps st)"
proof (induction ps arbitrary: st)
  case Nil
  show ?case by simp
next
  case (Cons q ps)
  show ?case by (cases st) (simp add: Cons.IH del: includes_str.simps)
qed


lemma pdfChunkPaths_excludes: "sourcePath \<notin> set (pdfChunkPaths sourcePath chunks)"
  by (simp add: pdfChunkPaths_def)

lemma extractLargePdf_keeps_source:
  "fst (fst (extractLargePdf env (fs, logs) sourcePath)) sourcePath
     = fst (splitPdfIntoChunks env fs sourcePath ''/tmp'') sourcePath"
proof (cases "splitPdfIntoChunks env fs sourcePath ''/tmp''")
  case (Pair fs1 r)
  show ?thesis
  proof (cases r)
    case (Inl err)
    with Pair show ?thesis by (simp add: extractLargePdf_def)
  next
    case (Inr chunks)
    have keep: "fst (cleanupPdfChunks env (pdfChunkPaths sourcePath chunks) (fs1, logs)) sourcePath
        = fs1 sourcePath"
      by (simp only: cleanupPdfChunks_fs pdfChunkPaths_excludes) simp
    show ?thesis
    proof (cases "processChunks env fs1 chunks []")
      case (Inl err)
      with Pair Inr keep show ?thesis
        by (simp add: extractLargePdf_def Let_def)
    next
      case (Inr texts)
      with Pair \<open>r = Inr chunks\<close> keep show ?thesis
        by (simp add: extractLargePdf_def)
    qed
  qed
qed

text \<open>
  C10. \<open>cleanupPdfChunks\<close> changes the file system only by deleting paths of its list that
  contain \<^verbatim>\<open>_chunk_\<close>; every such path that exists and whose deletion does not fail is
  deleted, whatever happens to the others (the loop over a list \<open>ps @ qs\<close> is the loop over
  \<open>qs\<close> after the loop over \<open>ps\<close>); a log entry is written only for a path that exists,
  so a missing file is skipped in silence. The list the OCR adapter hands over excludes the
  source path, so the source is still there after the cleanup, also at the end of the
  adapter's branch for large PDFs; for a PDF within the limit the chunker returns the
  source path alone and the adapter's list is empty.
\<close>

theorem cleanupPdfChunks_only_chunks:
  "(\<forall>p. fst (cleanupPdfChunks env paths (fs, logs)) p \<noteq> fs p
        \<longrightarrow> fst (cleanupPdfChunks env paths (fs, logs)) p = None
            \<and> p \<in> set paths \<and> includes_str p ''_chunk_'')
   \<and> (\<forall>p \<in> set paths. fs p \<noteq> None \<and> includes_str p ''_chunk_'' \<and> \<not> unlinkFails env p
        \<longrightarrow> fst (cleanupPdfChunks env paths (fs, logs)) p = None)
   \<and> (\<exists>new. snd (cleanupPdfChunks env paths (fs, logs)) = logs @ new
        \<and> (\<forall>e \<in> set new. \<exists>p \<in> set paths. fs p \<noteq> None \<and> includes_str p ''_chunk_''
              \<and> (if unlinkFails env p then e = LogError p else e = LogInfo p)))
   \<and> cleanupPdfChunks env (ps @ qs) (fs, logs)
        = cleanupPdfChunks env qs (cleanupPdfChunks env ps (fs, logs))
   \<and> fst (cleanupPdfChunks env (pdfChunkPaths sourcePath chunks) (fs, logs)) sourcePath = fs sourcePath
   \<and> fst (fst (extractLargePdf env (fs, logs) sourcePath)) sourcePath
        = fst (splitPdfIntoChunks env fs sourcePath ''/tmp'') sourcePath
   \<and> (fs sourcePath = Some (PdfDoc pages) \<and> length pages \<le> 15
        \<longrightarrow> splitPdfIntoChunks env fs sourcePath tempDir = (fs, Inr [sourcePath])
            \<and> pdfChunkPaths sourcePath [sourcePath] = [])"
proof (intro conjI)
  show "\<forall>p. fst (cleanupPdfChunks env paths (fs, logs)) p \<noteq> fs p
        \<longrightarrow> fst (cleanupPdfChunks env paths (fs, logs)) p = None
            \<and> p \<in> set paths \<and> includes_str p ''_chunk_''"
    by (simp only: cleanupPdfChunks_fs) (auto simp del: includes_str.simps)
  show "\<forall>p \<in> set paths. fs p \<noteq> None \<and> includes_str p ''_chunk_'' \<and> \<not> unlinkFails env p
        \<longrightarrow> fst (cleanupPdfChunks env paths (fs, logs)) p = None"
    by (simp only: cleanupPdfChunks_fs) (auto simp del: includes_str.simps)
  show "\<exists>new. snd (cleanupPdfChunks env paths (fs, logs)) = logs @ new
        \<and> (\<forall>e \<in> set new. \<exists>p \<in> set paths. fs p \<noteq> None \<and> includes_str p ''_chunk_''
              \<and> (if unlinkFails env p then e = LogError p else e = LogInfo p))"
    by (rule cleanupPdfChunks_logs)
  show "cleanupPdfChunks env (ps @ qs) (fs, logs)
        = cleanupPdfChunks env qs (cleanupPdfChunks env ps (fs, logs))"
    by (rule cleanupPdfChunks_append)
  show "fst (cleanupPdfChunks env (pdfChunkPaths sourcePath chunks) (fs, logs)) sourcePath
      = fs sourcePath"
    by (simp only: cleanupPdfChunks_fs pdfChunkPaths_excludes) simp
  show "fst (fst (extractLargePdf env (fs, logs) sourcePath)) sourcePath
        = fst (splitPdfIntoChunks env fs sourcePath ''/tmp'') sourcePath"
    by (rule extractLargePdf_keeps_source)
  show "fs sourcePath = Some (PdfDoc pages) \<and> length pages \<le> 15
        \<longrightarrow> splitPdfIntoChunks env fs sourcePath tempDir = (fs, Inr [sourcePath])
            \<and> pdfChunkPaths sourcePath [sourcePath] = []"
    by (simp add: splitPdfIntoChunks_def MAX_PAGES_PER_CHUNK_def pdfChunkPaths_def)
qed


theorem cleanupPdfChunks_only_chunks_witness:
  "''/tmp/a_chunk_2_of_2_6.pdf''
      \<in> set (pdfChunkPaths ''/tmp/7_my_chunk_notes.pdf''
            [''/tmp/a_chunk_1_of_2_5.pdf'', ''/tmp/gone_chunk_1_of_1_4.pdf'',
             ''/tmp/7_my_chunk_notes.pdf'', ''/tmp/a_chunk_2_of_2_6.pdf''])
   \<and> includes_str ''/tmp/a_chunk_2_of_2_6.pdf'' ''_chunk_''
   \<and> \<not> unlinkFails (quietEnv\<lparr>unlinkFails := (\<lambda>p. p = ''/tmp/a_chunk_1_of_2_5.pdf'')\<rparr>)
          ''/tmp/a_chunk_2_of_2_6.pdf''
   \<and> (let fs = [''/tmp/a_chunk_1_of_2_5.pdf'' \<mapsto> PdfDoc [1 :: nat],
                 ''/tmp/a_chunk_2_of_2_6.pdf'' \<mapsto> PdfDoc [2],
                 ''/tmp/7_my_chunk_notes.pdf'' \<mapsto> PdfDoc [1, 2]];
            r = cleanupPdfChunks (quietEnv\<lparr>unlinkFails := (\<lambda>p. p = ''/tmp/a_chunk_1_of_2_5.pdf'')\<rparr>)
                  (pdfChunkPaths ''/tmp/7_my_chunk_notes.pdf''
                    [''/tmp/a_chunk_1_of_2_5.pdf'', ''/tmp/gone_chunk_1_of_1_4.pdf'',
                     ''/tmp/7_my_chunk_notes.pdf'', ''/tmp/a_chunk_2_of_2_6.pdf''])
                  (fs, [])
        in fs ''/tmp/a_chunk_2_of_2_6.pdf'' \<noteq> None
           \<and> fst r ''/tmp/a_chunk_2_of_2_6.pdf'' = None
           \<and> fst r ''/tmp/a_chunk_1_of_2_5.pdf'' = Some (PdfDoc [1])
           \<and> fst r ''/tmp/7_my_chunk_notes.pdf'' = Some (PdfDoc [1, 2])
           \<and> snd r = [LogError ''/tmp/a_chunk_1_of_2_5.pdf'', LogInfo ''/tmp/a_chunk_2_of_2_6.pdf''])"
proof -
  let ?env = "quietEnv\<lparr>unlinkFails := (\<lambda>p. p = ''/tmp/a_chunk_1_of_2_5.pdf'')\<rparr>"
  let ?fs = "[''/tmp/a_chunk_1_of_2_5.pdf'' \<mapsto> PdfDoc [1 :: nat],
              ''/tmp/a_chunk_2_of_2_6.pdf'' \<mapsto> PdfDoc [2],
              ''/tmp/7_my_chunk_notes.pdf'' \<mapsto> PdfDoc [1, 2]]"
  let ?chunks = "[''/tmp/a_chunk_1_of_2_5.pdf'', ''/tmp/gone_chunk_1_of_1_4.pdf'',
                  ''/tmp/7_my_chunk_notes.pdf'', ''/tmp/a_chunk_2_of_2_6.pdf'']"
  have i1: "includes_str ''/tmp/a_chunk_1_of_2_5.pdf'' ''_chunk_''" by code_simp
  have i2: "includes_str ''/tmp/a_chunk_2_of_2_6.pdf'' ''_chunk_''" by code_simp
  have i3: "includes_str ''/tmp/gone_chunk_1_of_1_4.pdf'' ''_chunk_''" by code_simp
  have paths: "pdfChunkPaths ''/tmp/7_my_chunk_notes.pdf'' ?chunks
      = [''/tmp/a_chunk_1_of_2_5.pdf'', ''/tmp/gone_chunk_1_of_1_4.pdf'',
         ''/tmp/a_chunk_2_of_2_6.pdf'']"
    by (simp add: pdfChunkPaths_def)
  have logs: "snd (cleanupPdfChunks ?env (pdfChunkPaths ''/tmp/7_my_chunk_notes.pdf'' ?chunks) (?fs, []))
      = [LogError ''/tmp/a_chunk_1_of_2_5.pdf'', LogInfo ''/tmp/a_chunk_2_of_2_6.pdf'']"
    unfolding paths by (simp add: i1 i2 i3 quietEnv_def del: includes_str.simps)
  show ?thesis
    using cleanupPdfChunks_only_chunks [where env = ?env and fs = ?fs and logs = "[]"
        and paths = "pdfChunkPaths ''/tmp/7_my_chunk_notes.pdf'' ?chunks"
        and sourcePath = "''/tmp/7_my_chunk_notes.pdf''" and chunks = ?chunks]
      i1 i2 logs
    unfolding Let_def
    by (simp add: paths quietEnv_def del: includes_str.simps)
qed

subsection \<open>Response parser\<close>

lemma truthy_string: "(truthy v \<and> isString v) = nonEmptyString v"
  by (cases v rule: truthy.cases) (simp_all add: nonEmptyString_def)

lemma validateCards_None: "(validateCards cardList = None) = list_all validCard cardList"
proof (induction cardList)
  case Nil
  show ?case by simp
next
  case (Cons c cardList)
  show ?case
  proof (cases c)
    case JNull
    then show ?thesis by (simp add: validCard_def getProp_def nonEmptyString_def)
  next
    case (JObject props)
    then show ?thesis
      using Cons.IH truthy_string [of "map_of props ''question''"]
        truthy_string [of "map_of props ''answer''"]
      by (auto simp: validCard_def getProp_def)
  qed (simp_all add: validCard_def getProp_def nonEmptyString_def)
qed

lemma map_of_assignField:
  "map_of (assignField props key v) k = (if k = key then Some v else map_of props k)"
  by (induction props) auto

lemma getProp_assignProp:
  "getProp (assignProp (JObject props) key v) k
     = (if k = key then Some v else getProp (JObject props) k)"
  by (simp add: getProp_def map_of_assignField)

lemma nonEmptyString_title_object:
  "nonEmptyString (getProp parsed key) \<Longrightarrow> \<exists>props. parsed = JObject props"
  by (cases parsed) (simp_all add: getProp_def nonEmptyString_def)

lemma parseFlashcardResponse_object:
  assumes "parse (cleanResponse response) = Some (JObject props)"
  shows "parseFlashcardResponse parse response
     = (if \<not> nonEmptyString (map_of props ''title'') then Inl InvalidTitle
        else case map_of props ''cards'' of
               Some (JArray cardList) \<Rightarrow>
                 (case validateCards cardList of
                    Some e \<Rightarrow> Inl e
                  | None \<Rightarrow> Inr (if isArray (map_of props ''tags'') then JObject props
                                 else assignProp (JObject props) ''tags'' (JArray [])))
             | _ \<Rightarrow> Inl CardsNotArray)"
  using assms truthy_string [of "map_of props ''title''"]
  by (auto simp: parseFlashcardResponse_def Let_def split: option.splits json.splits)

lemma parseFlashcardResponse_not_object:
  assumes "parse (cleanResponse response) = Some parsed" "\<forall>props. parsed \<noteq> JObject props"
  shows "\<exists>e. parseFlashcardResponse parse response = Inl e"
  using assms by (cases parsed) (simp_all add: parseFlashcardResponse_def)


lemma parseFlashcardResponse_Inr:
  assumes "parseFlashcardResponse parse response = Inr out"
  shows "\<exists>parsed cardList. parse (cleanResponse response) = Some parsed
           \<and> validFlashcardJson parsed
           \<and> out = (if isArray (getProp parsed ''tags'') then parsed
                    else assignProp parsed ''tags'' (JArray []))
           \<and> getProp out ''tags''
               = (if isArray (getProp parsed ''tags'') then getProp parsed ''tags''
                  else Some (JArray []))
           \<and> getProp out ''title'' = getProp parsed ''title''
           \<and> getProp out ''cards'' = Some (JArray cardList)
           \<and> getProp parsed ''cards'' = Some (JArray cardList)
           \<and> list_all validCard cardList"
proof -
  from assms obtain parsed where p: "parse (cleanResponse response) = Some parsed"
    by (auto simp: parseFlashcardResponse_def split: option.splits)
  have "\<exists>props. parsed = JObject props"
  proof (rule ccontr)
    assume "\<not> (\<exists>props. parsed = JObject props)"
    then have "\<exists>e. parseFlashcardResponse parse response = Inl e"
      using parseFlashcardResponse_not_object [of parse response parsed, OF p] by blast
    with assms show False by simp
  qed
  then obtain props where o: "parsed = JObject props" by blast
  note r = parseFlashcardResponse_object [of parse response props, OF p [unfolded o]]
  from assms r have t: "nonEmptyString (map_of props ''title'')"
    by (auto split: if_splits)
  from assms r t obtain cardList where c: "map_of props ''cards'' = Some (JArray cardList)"
    by (auto split: option.splits json.splits)
  from assms r t c have v: "validateCards cardList = None"
    by (auto split: option.splits)
  from assms r t c v have out: "out = (if isArray (map_of props ''tags'') then JObject props
      else assignProp (JObject props) ''tags'' (JArray []))"
    by simp
  have valid: "validFlashcardJson parsed"
    using t c v by (simp add: validFlashcardJson_def o getProp_def validateCards_None)
  show ?thesis
    using p valid c v out
    by (intro exI [of _ parsed] exI [of _ cardList])
       (simp add: o getProp_def map_of_assignField validateCards_None)
qed

lemma parseFlashcardResponse_valid:
  assumes "parse (cleanResponse response) = Some parsed" "validFlashcardJson parsed"
  shows "\<exists>out. parseFlashcardResponse parse response = Inr out"
proof -
  from assms(2) obtain props where o: "parsed = JObject props"
    using nonEmptyString_title_object [of parsed "''title''"]
    by (auto simp: validFlashcardJson_def)
  from assms(2) have t: "nonEmptyString (map_of props ''title'')"
    by (simp add: validFlashcardJson_def o getProp_def)
  from assms(2) obtain cardList where c: "map_of props ''cards'' = Some (JArray cardList)"
    and v: "list_all validCard cardList"
    by (auto simp: validFlashcardJson_def o getProp_def split: option.splits json.splits)
  from v have "validateCards cardList = None" by (simp add: validateCards_None)
  with t c show ?thesis
    by (simp add: parseFlashcardResponse_object [of parse response props, OF assms(1) [unfolded o]])
qed

lemma parseFlashcardResponse_no_cards:
  assumes "parse (cleanResponse response) = Some parsed"
    "\<not> isArray (getProp parsed ''cards'')"
  shows "(\<exists>e. parseFlashcardResponse parse response = Inl e)
    \<and> (nonEmptyString (getProp parsed ''title'')
         \<longrightarrow> parseFlashcardResponse parse response = Inl CardsNotArray)"
proof (cases "\<exists>props. parsed = JObject props")
  case True
  then obtain props where o: "parsed = JObject props" by blast
  with assms(2) have "\<not> isArray (map_of props ''cards'')" by (simp add: getProp_def)
  then show ?thesis
    by (cases "map_of props ''cards''" rule: isArray.cases)
       (simp_all add: parseFlashcardResponse_object [of parse response props, OF assms(1) [unfolded o]] o getProp_def)
next
  case False
  then have "\<not> nonEmptyString (getProp parsed ''title'')"
    using nonEmptyString_title_object by blast
  with False parseFlashcardResponse_not_object [of parse response parsed, OF assms(1)] show ?thesis by blast
qed

subsection \<open>Saving with duplicate detection\<close>

lemma find_list_ex: "list_ex P xs \<Longrightarrow> \<exists>x \<in> set xs. find P xs = Some x \<and> P x"
  by (induction xs) auto

text \<open>
  What the duplicate test does guarantee: when the history has a duplicate nothing is
  written and an entity of the history with the same title, created less than 5000 ms from
  now, is returned; when it has none, the new entity is appended.
\<close>

lemma saveFlashcardToFirestore_duplicate:
  assumes "db userId = Some userData"
    and "\<exists>e \<in> set (flashcards userData).
           flashcardData.title e = flashcardData.title flashcardData
           \<and> timeDiff (flashcardData.creationDate e) now < 5000
           \<and> length (cards e) = length (cards flashcardData)"
  shows "\<exists>d \<in> set (flashcards userData).
           saveFlashcardToFirestore False now db userId flashcardData = (db, Inr d)
           \<and> flashcardData.title d = flashcardData.title flashcardData
           \<and> timeDiff (flashcardData.creationDate d) now < 5000"
proof -
  let ?P = "\<lambda>e. flashcardData.title e = flashcardData.title flashcardData
      \<and> timeDiff (flashcardData.creationDate e) now < 5000"
  from assms(2) have ex: "list_ex (\<lambda>e. flashcardData.title e = flashcardData.title flashcardData
           \<and> timeDiff (flashcardData.creationDate e) now < 5000
           \<and> length (cards e) = length (cards flashcardData)) (flashcards userData)"
    by (auto simp: list_ex_iff)
  then have "list_ex ?P (flashcards userData)" by (auto simp: list_ex_iff)
  from find_list_ex [OF this] obtain d where d: "d \<in> set (flashcards userData)"
    "find ?P (flashcards userData) = Some d" "?P d" by blast
  with assms(1) ex show ?thesis
    by (intro bexI [of _ d]) (simp_all add: saveFlashcardToFirestore_def Let_def)
qed

lemma saveFlashcardToFirestore_fresh:
  assumes "db userId = Some userData"
    and "\<not> (\<exists>e \<in> set (flashcards userData).
           flashcardData.title e = flashcardData.title flashcardData
           \<and> timeDiff (flashcardData.creationDate e) now < 5000
           \<and> length (cards e) = length (cards flashcardData))"
  shows "saveFlashcardToFirestore False now db userId flashcardData
     = (db(userId \<mapsto> userData\<lparr>flashcards := flashcards userData
            @ [flashcardData\<lparr>flashcardData.creationDate := now, lastReviewed := now\<rparr>]\<rparr>),
        Inr (flashcardData\<lparr>flashcardData.creationDate := now, lastReviewed := now\<rparr>))"
  using assms by (simp add: saveFlashcardToFirestore_def Let_def list_ex_iff)

text \<open>
  C4. The claim says that a save which finds a duplicate (same title, same item count,
  created less than 5000 ms apart) returns that duplicate, so that the second of two
  identical saves returns the entity the first one stored. The code looks the returned
  entity up by title and time only. With a three-item set of the same title already in the
  history, the first save of the five-item set appends it, and the second save, 500 ms
  later, appends nothing and returns the three-item set; the same for quizzes.
\<close>

theorem save_returns_other_set:
  "saveFlashcardToFirestore False 1500 storeBefore ''u1'' cellsFive
     = (storeBefore(''u1'' \<mapsto> \<lparr>flashcards = [cellsThree,
           cellsFive\<lparr>flashcardData.creationDate := 1500, lastReviewed := 1500\<rparr>],
          quizzes = [quizThree]\<rparr>),
        Inr (cellsFive\<lparr>flashcardData.creationDate := 1500, lastReviewed := 1500\<rparr>))
   \<and> saveFlashcardToFirestore False 2000
        (fst (saveFlashcardToFirestore False 1500 storeBefore ''u1'' cellsFive)) ''u1'' cellsFive
     = (fst (saveFlashcardToFirestore False 1500 storeBefore ''u1'' cellsFive), Inr cellsThree)
   \<and> length (cards cellsThree) \<noteq> length (cards cellsFive)
   \<and> snd (saveQuizToFirestore False 1500 storeBefore ''u1'' quizFive)
     = Inr (quizFive\<lparr>quizData.creationDate := 1500, lastAccessed := 1500,
             lastQuestionIndex := Some 0, bookmarkedQuestions := Some []\<rparr>)
   \<and> saveQuizToFirestore False 2000
        (fst (saveQuizToFirestore False 1500 storeBefore ''u1'' quizFive)) ''u1'' quizFive
     = (fst (saveQuizToFirestore False 1500 storeBefore ''u1'' quizFive), Inr quizThree)
   \<and> length (questionsList quizThree) \<noteq> length (questionsList quizFive)"
  by (simp add: saveFlashcardToFirestore_def saveQuizToFirestore_def saveQuizTransaction_def
        storeBefore_def cellsThree_def cellsFive_def quizThree_def quizFive_def timeDiff_def
        Let_def)

subsection \<open>Pipeline orchestrator\<close>


























lemma working_run:
  "processNotes workingEnv (Some ''u1'') sampleRequest emptyWorld
     = (\<lparr>localFiles = {},
         storageFiles = {''gs://bucket/uploads/u1/1_notes.pdf''},
         cleanupErrors = [''Error deleting file from Storage'']\<rparr>,
        Inr (JObject [(''title'', JString ''Cells''),
            (''cards'', JArray [JObject [(''question'', JString ''Q''), (''answer'', JString ''A'')]]),
            (''tags'', JArray [])]))"
proof -
  let ?url = "''gs://bucket/uploads/u1/1_notes.pdf''"
  let ?w1 = "\<lparr>localFiles = {}, storageFiles = {?url}, cleanupErrors = []\<rparr>"
  let ?w2 = "\<lparr>localFiles = {''/tmp/2_1_notes.pdf''}, storageFiles = {?url}, cleanupErrors = []\<rparr>"
  let ?d = "\<lparr>filePath = ''/tmp/2_1_notes.pdf'', fileName = ''1_notes.pdf'',
             mimeType = ''application/pdf'', storageUrl = ?url\<rparr>"
  let ?x = "\<lparr>extractedName = ''1_notes.pdf'', extractedType = ''application/pdf'',
             textContent = ''The cell is the unit of life.''\<rparr>"
  have v: "validateRequest workingEnv sampleRequest = None"
    by (simp add: validateRequest_def validateFile_def workingEnv_def sampleEnv_def
          sampleRequest_def trim_def isSpace_def isBase64Char_def)
  have sel: "files sampleRequest = [\<lparr>name = ''notes.pdf'', fileType = ''pdf'', base64 = ''JVBERi0x''\<rparr>]"
    "selectionType sampleRequest = ''flashcard''" "numberOfItems sampleRequest = 5"
    "requestNotes sampleRequest = None"
    by (simp_all add: sampleRequest_def)
  have u: "uploadAll workingEnv ''u1'' (files sampleRequest) emptyWorld [] = (?w1, Inr [?url])"
    by (simp add: sel workingEnv_def sampleEnv_def emptyWorld_def)
  have d: "downloadAll workingEnv [?url] ?w1 [] = (?w2, Inr [?d])"
    by (simp add: workingEnv_def sampleEnv_def)
  have pdf: "\<not> isImageType ''application/pdf''"
    unfolding isImageType_def by code_simp
  have t: "hasText ''The cell is the unit of life.''"
    unfolding hasText_def by code_simp
  have e: "extractAll workingEnv ?w2 [?d] [] = Inr [?x]"
    by (simp add: extractOne_def pdf t workingEnv_def sampleEnv_def)
  have pr: "processAll workingEnv ?w2 [?x] [?d] [] = Inr [''The cell is the unit of life.'']"
    by (simp add: processOne_def pdf t)
  have c: "trim (joinWith [CHR 0x0A, CHR 0x0A] [''The cell is the unit of life.'']) \<noteq> []"
    by code_simp
  have p: "parseFlashcardResponse sampleParse
        ''{\"title\":\"Cells\",\"cards\":[{\"question\":\"Q\",\"answer\":\"A\"}]}''
      = Inr (JObject [(''title'', JString ''Cells''),
            (''cards'', JArray [JObject [(''question'', JString ''Q''), (''answer'', JString ''A'')]]),
            (''tags'', JArray [])])"
    by code_simp
  have g: "generateFlashcards workingEnv (joinWith [CHR 0x0A, CHR 0x0A] [''The cell is the unit of life.''])
       5 None = Inr (JObject [(''title'', JString ''Cells''),
            (''cards'', JArray [JObject [(''question'', JString ''Q''), (''answer'', JString ''A'')]]),
            (''tags'', JArray [])])"
    by (simp add: generateFlashcards_def workingEnv_def sampleEnv_def p)
  have cl: "cleanupAll workingEnv [?d] ?w2
      = \<lparr>localFiles = {}, storageFiles = {?url},
          cleanupErrors = [''Error deleting file from Storage'']\<rparr>"
    by (simp add: cleanupTempFile_def deleteFileFromStorage_def workingEnv_def sampleEnv_def)
  show ?thesis
    unfolding processNotes_def
    by (simp add: v u d e pr c g cl sel(2,3,4)
          del: joinWith.simps uploadAll.simps downloadAll.simps extractAll.simps
            processAll.simps cleanupAll.simps)
qed



subsection \<open>Validation failures reach the caller\<close>

lemma generateFlashcards_Inr:
  assumes "generateFlashcards env noteText numCards optNotes = Inr generated"
  shows "\<exists>textResponse. flashcardText env noteText numCards optNotes = Inr textResponse
     \<and> parseFlashcardResponse (jsonParse env) textResponse = Inr generated"
proof (cases "flashcardText env noteText numCards optNotes")
  case (Inl err)
  with assms show ?thesis by (simp add: generateFlashcards_def)
next
  case (Inr textResponse)
  with assms have "parseFlashcardResponse (jsonParse env) textResponse = Inr generated"
    by (cases "parseFlashcardResponse (jsonParse env) textResponse")
       (simp_all add: generateFlashcards_def)
  with Inr show ?thesis by blast
qed

lemma generateFlashcards_parse_error:
  assumes "flashcardText env noteText numCards optNotes = Inr textResponse"
    and "parseFlashcardResponse (jsonParse env) textResponse = Inl pe"
  shows "\<exists>msg. generateFlashcards env noteText numCards optNotes = Inl msg"
  using assms by (simp add: generateFlashcards_def)

lemma processNotes_generated:
  assumes "processNotes env auth data w = (w', Inr result)"
    and "selectionType data = ''flashcard''"
  shows "\<exists>combinedText.
     generateFlashcards env combinedText (numberOfItems data) (requestNotes data) = Inr result"
proof -
  from assms(1) obtain userId where a: "auth = Some userId"
    by (cases auth) (simp_all add: processNotes_def)
  from assms(1) a have v: "validateRequest env data = None"
    by (cases "validateRequest env data") (simp_all add: processNotes_def)
  obtain w1 r1 where u: "uploadAll env userId (files data) w [] = (w1, r1)"
    by (cases "uploadAll env userId (files data) w []") auto
  from assms(1) a v u obtain urls where r1: "r1 = Inr urls"
    by (cases r1) (simp_all add: processNotes_def)
  obtain w2 r2 where d: "downloadAll env urls w1 [] = (w2, r2)"
    by (cases "downloadAll env urls w1 []") auto
  from assms(1) a v u r1 d obtain ds where r2: "r2 = Inr ds"
    by (cases r2) (simp_all add: processNotes_def)
  from assms(1) a v u r1 d r2 obtain xs where x: "extractAll env w2 ds [] = Inr xs"
    by (cases "extractAll env w2 ds []")
       (simp_all add: processNotes_def split: if_splits)
  from assms(1) a v u r1 d r2 x obtain ts where t: "processAll env w2 xs ds [] = Inr ts"
    by (cases "processAll env w2 xs ds []")
       (simp_all add: processNotes_def split: if_splits)
  let ?text = "joinWith [CHR 0x0A, CHR 0x0A] ts"
  have "generateFlashcards env ?text (numberOfItems data) (requestNotes data) = Inr result"
    using assms a v u r1 d r2 x t
    by (cases "generateFlashcards env ?text (numberOfItems data) (requestNotes data)")
       (simp_all add: processNotes_def Let_def split: if_splits)
  then show ?thesis by (rule exI)
qed

text \<open>
  C6. When the parsed JSON has no \<open>cards\<close> list (the property is missing or is not an
  array) the parser ends with an error, which is the \<open>cards\<close> error when the title is a
  non-empty string; it never returns a value with the cards defaulted. When it returns,
  the input parsed to a value that satisfies the flashcard schema, the returned object is
  that value with \<open>tags\<close> set to the empty list if \<open>tags\<close> was missing or not a list (and
  is that value unchanged otherwise), and every card of the result has a non-empty string
  question and a non-empty string answer. It returns for every parsed value that satisfies
  the schema, and ends with an error for every other one and for text that does not parse.
  The error is fatal to the request: \<open>generateFlashcards\<close> fails when the parser fails on
  the model's text and returns only what the parser returned, and a flashcard request that
  \<open>processNotes\<close> answers with a result answers with a value the parser returned for some
  text of the model, so when the parser rejects what the model says the request ends with
  an error.
\<close>

theorem parseFlashcardResponse_validates:
  "(parse (cleanResponse response) = Some parsed \<and> \<not> isArray (getProp parsed ''cards'')
      \<longrightarrow> (\<exists>e. parseFlashcardResponse parse response = Inl e)
          \<and> (nonEmptyString (getProp parsed ''title'')
               \<longrightarrow> parseFlashcardResponse parse response = Inl CardsNotArray))
   \<and> (parseFlashcardResponse parse response = Inr out
      \<longrightarrow> (\<exists>parsed cardList. parse (cleanResponse response) = Some parsed
             \<and> validFlashcardJson parsed
             \<and> out = (if isArray (getProp parsed ''tags'') then parsed
                      else assignProp parsed ''tags'' (JArray []))
             \<and> getProp out ''tags''
                 = (if isArray (getProp parsed ''tags'') then getProp parsed ''tags''
                    else Some (JArray []))
             \<and> getProp out ''title'' = getProp parsed ''title''
             \<and> getProp out ''cards'' = Some (JArray cardList)
             \<and> getProp parsed ''cards'' = Some (JArray cardList)
             \<and> list_all validCard cardList))
   \<and> (parse (cleanResponse response) = Some parsed \<and> validFlashcardJson parsed
      \<longrightarrow> (\<exists>out. parseFlashcardResponse parse response = Inr out))
   \<and> (parse (cleanResponse response) = Some parsed \<and> \<not> validFlashcardJson parsed
      \<longrightarrow> (\<exists>e. parseFlashcardResponse parse response = Inl e))
   \<and> (parse (cleanResponse response) = None
      \<longrightarrow> parseFlashcardResponse parse response = Inl JsonSyntaxError)
   \<and> (flashcardText env noteText numCards optNotes = Inr textResponse
        \<and> parseFlashcardResponse (jsonParse env) textResponse = Inl pe
      \<longrightarrow> (\<exists>msg. generateFlashcards env noteText numCards optNotes = Inl msg))
   \<and> (generateFlashcards env noteText numCards optNotes = Inr generated
      \<longrightarrow> (\<exists>textResponse. flashcardText env noteText numCards optNotes = Inr textResponse
             \<and> parseFlashcardResponse (jsonParse env) textResponse = Inr generated))
   \<and> (processNotes env auth data w = (w', Inr result) \<and> selectionType data = ''flashcard''
      \<longrightarrow> (\<exists>combinedText textResponse cardList.
             flashcardText env combinedText (numberOfItems data) (requestNotes data)
               = Inr textResponse
             \<and> parseFlashcardResponse (jsonParse env) textResponse = Inr result
             \<and> getProp result ''cards'' = Some (JArray cardList)
             \<and> list_all validCard cardList))
   \<and> (selectionType data = ''flashcard''
        \<and> (\<forall>combinedText textResponse.
              flashcardText env combinedText (numberOfItems data) (requestNotes data)
                = Inr textResponse
              \<longrightarrow> (\<exists>pe. parseFlashcardResponse (jsonParse env) textResponse = Inl pe))
      \<longrightarrow> (\<exists>code. snd (processNotes env auth data w) = Inl code))"
proof -
  have P: "(parse (cleanResponse response) = Some parsed \<and> \<not> isArray (getProp parsed ''cards'')
      \<longrightarrow> (\<exists>e. parseFlashcardResponse parse response = Inl e)
          \<and> (nonEmptyString (getProp parsed ''title'')
               \<longrightarrow> parseFlashcardResponse parse response = Inl CardsNotArray))
   \<and> (parseFlashcardResponse parse response = Inr out
      \<longrightarrow> (\<exists>parsed cardList. parse (cleanResponse response) = Some parsed
             \<and> validFlashcardJson parsed
             \<and> out = (if isArray (getProp parsed ''tags'') then parsed
                      else assignProp parsed ''tags'' (JArray []))
             \<and> getProp out ''tags''
                 = (if isArray (getProp parsed ''tags'') then getProp parsed ''tags''
                    else Some (JArray []))
             \<and> getProp out ''title'' = getProp parsed ''title''
             \<and> getProp out ''cards'' = Some (JArray cardList)
             \<and> getProp parsed ''cards'' = Some (JArray cardList)
             \<and> list_all validCard cardList))
   \<and> (parse (cleanResponse response) = Some parsed \<and> validFlashcardJson parsed
      \<longrightarrow> (\<exists>out. parseFlashcardResponse parse response = Inr out))
   \<and> (parse (cleanResponse response) = Some parsed \<and> \<not> validFlashcardJson parsed
      \<longrightarrow> (\<exists>e. parseFlashcardResponse parse response = Inl e))
   \<and> (parse (cleanResponse response) = None
      \<longrightarrow> parseFlashcardResponse parse response = Inl JsonSyntaxError)"
  proof (intro conjI impI)
    assume "parse (cleanResponse response) = Some parsed \<and> \<not> validFlashcardJson parsed"
    then have p: "parse (cleanResponse response) = Some parsed"
      and nv: "\<not> validFlashcardJson parsed" by simp_all
    show "\<exists>e. parseFlashcardResponse parse response = Inl e"
    proof (cases "parseFlashcardResponse parse response")
      case (Inl e)
      then show ?thesis by blast
    next
      case (Inr out')
      from parseFlashcardResponse_Inr [of parse response out', OF Inr] p nv show ?thesis by auto
    qed
  next
    assume a: "parse (cleanResponse response) = Some parsed
        \<and> \<not> isArray (getProp parsed ''cards'')"
    show "\<exists>e. parseFlashcardResponse parse response = Inl e"
      using parseFlashcardResponse_no_cards [of parse response parsed] a by blast
    assume "nonEmptyString (getProp parsed ''title'')"
    then show "parseFlashcardResponse parse response = Inl CardsNotArray"
      using parseFlashcardResponse_no_cards [of parse response parsed] a by blast
  next
    assume "parseFlashcardResponse parse response = Inr out"
    then show "\<exists>parsed cardList. parse (cleanResponse response) = Some parsed
               \<and> validFlashcardJson parsed
               \<and> out = (if isArray (getProp parsed ''tags'') then parsed
                        else assignProp parsed ''tags'' (JArray []))
               \<and> getProp out ''tags''
                   = (if isArray (getProp parsed ''tags'') then getProp parsed ''tags''
                      else Some (JArray []))
               \<and> getProp out ''title'' = getProp parsed ''title''
               \<and> getProp out ''cards'' = Some (JArray cardList)
               \<and> getProp parsed ''cards'' = Some (JArray cardList)
               \<and> list_all validCard cardList"
      by (rule parseFlashcardResponse_Inr)
  next
    assume "parse (cleanResponse response) = Some parsed \<and> validFlashcardJson parsed"
    then show "\<exists>out. parseFlashcardResponse parse response = Inr out"
      using parseFlashcardResponse_valid [of parse response parsed] by blast
  next
    assume "parse (cleanResponse response) = None"
    then show "parseFlashcardResponse parse response = Inl JsonSyntaxError"
      by (simp add: parseFlashcardResponse_def)
  qed
  have G1: "\<exists>msg. generateFlashcards env noteText numCards optNotes = Inl msg"
    if "flashcardText env noteText numCards optNotes = Inr textResponse
        \<and> parseFlashcardResponse (jsonParse env) textResponse = Inl pe"
    using that generateFlashcards_parse_error [of env noteText numCards optNotes textResponse pe]
    by blast
  have G2: "\<exists>textResponse. flashcardText env noteText numCards optNotes = Inr textResponse
             \<and> parseFlashcardResponse (jsonParse env) textResponse = Inr generated"
    if "generateFlashcards env noteText numCards optNotes = Inr generated"
    using that by (rule generateFlashcards_Inr)
  have G3: "\<exists>combinedText textResponse cardList.
             flashcardText env combinedText (numberOfItems data) (requestNotes data)
               = Inr textResponse
             \<and> parseFlashcardResponse (jsonParse env) textResponse = Inr result
             \<and> getProp result ''cards'' = Some (JArray cardList)
             \<and> list_all validCard cardList"
    if h: "processNotes env auth data w = (w', Inr result) \<and> selectionType data = ''flashcard''"
      for w' result
  proof -
    from h processNotes_generated [of env auth data w w' result] obtain combinedText where
      "generateFlashcards env combinedText (numberOfItems data) (requestNotes data) = Inr result"
      by blast
    from generateFlashcards_Inr [OF this] obtain textResponse where
      r: "flashcardText env combinedText (numberOfItems data) (requestNotes data)
            = Inr textResponse"
        "parseFlashcardResponse (jsonParse env) textResponse = Inr result"
      by blast
    from parseFlashcardResponse_Inr [of "jsonParse env" textResponse result, OF r(2)]
    obtain cardList where
      "getProp result ''cards'' = Some (JArray cardList)" "list_all validCard cardList"
      by blast
    with r show ?thesis by blast
  qed
  have G4: "\<exists>code. snd (processNotes env auth data w) = Inl code"
    if h: "selectionType data = ''flashcard''
        \<and> (\<forall>combinedText textResponse.
              flashcardText env combinedText (numberOfItems data) (requestNotes data)
                = Inr textResponse
              \<longrightarrow> (\<exists>pe. parseFlashcardResponse (jsonParse env) textResponse = Inl pe))"
  proof (cases "snd (processNotes env auth data w)")
    case (Inl code)
    then show ?thesis by blast
  next
    case (Inr res)
    then have "processNotes env auth data w = (fst (processNotes env auth data w), Inr res)"
      by (metis prod.collapse)
    with h G3 [of "fst (processNotes env auth data w)" res] obtain combinedText textResponse
      where "flashcardText env combinedText (numberOfItems data) (requestNotes data)
               = Inr textResponse"
        "parseFlashcardResponse (jsonParse env) textResponse = Inr res"
      by blast
    with h show ?thesis by fastforce
  qed
  show ?thesis using P G1 G2 G3 [of w' result] G4 by blast
qed

theorem parseFlashcardResponse_validates_witness:
  "(sampleParse (cleanResponse (fence @ ''json'' @ [CHR 0x0A]
        @ ''{\"title\":\"Cells\",\"tags\":\"bio\"}'' @ [CHR 0x0A] @ fence))
      = Some (JObject [(''title'', JString ''Cells''), (''tags'', JString ''bio'')])
    \<and> \<not> isArray (getProp (JObject [(''title'', JString ''Cells''), (''tags'', JString ''bio'')])
             ''cards'')
    \<and> nonEmptyString (getProp (JObject [(''title'', JString ''Cells''), (''tags'', JString ''bio'')])
          ''title'')
    \<and> parseFlashcardResponse sampleParse (fence @ ''json'' @ [CHR 0x0A]
        @ ''{\"title\":\"Cells\",\"tags\":\"bio\"}'' @ [CHR 0x0A] @ fence) = Inl CardsNotArray)
   \<and> (sampleParse (cleanResponse
          ''  {\"title\":\"Cells\",\"cards\":[{\"question\":\"Q\",\"answer\":\"A\"}]} '')
      = Some (JObject [(''title'', JString ''Cells''),
            (''cards'', JArray [JObject [(''question'', JString ''Q''), (''answer'', JString ''A'')]])])
    \<and> validFlashcardJson (JObject [(''title'', JString ''Cells''),
            (''cards'', JArray [JObject [(''question'', JString ''Q''), (''answer'', JString ''A'')]])])
    \<and> parseFlashcardResponse sampleParse
          ''  {\"title\":\"Cells\",\"cards\":[{\"question\":\"Q\",\"answer\":\"A\"}]} ''
        = Inr (JObject [(''title'', JString ''Cells''),
            (''cards'', JArray [JObject [(''question'', JString ''Q''), (''answer'', JString ''A'')]]),
            (''tags'', JArray [])]))
   \<and> (flashcardText sampleEnv ''The cell.'' 5 None = Inr ''Sorry, I cannot help with that.''
    \<and> parseFlashcardResponse (jsonParse sampleEnv) ''Sorry, I cannot help with that.''
        = Inl JsonSyntaxError
    \<and> (\<exists>msg. generateFlashcards sampleEnv ''The cell.'' 5 None = Inl msg))
   \<and> (selectionType sampleRequest = ''flashcard''
    \<and> (\<exists>code. snd (processNotes sampleEnv (Some ''u1'') sampleRequest emptyWorld) = Inl code))
   \<and> (\<exists>w'. processNotes workingEnv (Some ''u1'') sampleRequest emptyWorld
          = (w', Inr (JObject [(''title'', JString ''Cells''),
            (''cards'', JArray [JObject [(''question'', JString ''Q''), (''answer'', JString ''A'')]]),
            (''tags'', JArray [])])))
   \<and> (\<exists>combinedText textResponse.
          flashcardText workingEnv combinedText (numberOfItems sampleRequest)
              (requestNotes sampleRequest) = Inr textResponse
          \<and> parseFlashcardResponse (jsonParse workingEnv) textResponse
              = Inr (JObject [(''title'', JString ''Cells''),
            (''cards'', JArray [JObject [(''question'', JString ''Q''), (''answer'', JString ''A'')]]),
            (''tags'', JArray [])]))"
proof -
  let ?r1 = "fence @ ''json'' @ [CHR 0x0A]
        @ ''{\"title\":\"Cells\",\"tags\":\"bio\"}'' @ [CHR 0x0A] @ fence"
  let ?p1 = "JObject [(''title'', JString ''Cells''), (''tags'', JString ''bio'')]"
  let ?r2 = "''  {\"title\":\"Cells\",\"cards\":[{\"question\":\"Q\",\"answer\":\"A\"}]} ''"
  let ?p2 = "JObject [(''title'', JString ''Cells''),
            (''cards'', JArray [JObject [(''question'', JString ''Q''), (''answer'', JString ''A'')]])]"
  have c1: "sampleParse (cleanResponse ?r1) = Some ?p1" by code_simp
  have c2: "sampleParse (cleanResponse ?r2) = Some ?p2" by code_simp
  have a1: "\<not> isArray (getProp ?p1 ''cards'')" by (simp add: getProp_def)
  have t1: "nonEmptyString (getProp ?p1 ''title'')" by (simp add: getProp_def nonEmptyString_def)
  have v2: "validFlashcardJson ?p2"
    by (simp add: validFlashcardJson_def validCard_def getProp_def nonEmptyString_def)
  have g2: "\<not> isArray (getProp ?p2 ''tags'')" by (simp add: getProp_def)
  from parseFlashcardResponse_validates [of sampleParse ?r1 ?p1] c1 a1 t1
  have r1: "parseFlashcardResponse sampleParse ?r1 = Inl CardsNotArray" by blast
  from parseFlashcardResponse_validates [of sampleParse ?r2 ?p2] c2 v2
  obtain out where o: "parseFlashcardResponse sampleParse ?r2 = Inr out" by blast
  from parseFlashcardResponse_validates [of sampleParse ?r2 ?p2 out] o c2 g2
  have "out = assignProp ?p2 ''tags'' (JArray [])" by auto
  with o have r2: "parseFlashcardResponse sampleParse ?r2
      = Inr (JObject [(''title'', JString ''Cells''),
            (''cards'', JArray [JObject [(''question'', JString ''Q''), (''answer'', JString ''A'')]]),
            (''tags'', JArray [])])"
    by simp
  let ?out = "JObject [(''title'', JString ''Cells''),
            (''cards'', JArray [JObject [(''question'', JString ''Q''), (''answer'', JString ''A'')]]),
            (''tags'', JArray [])]"
  have ft: "flashcardText sampleEnv t n ns = Inr ''Sorry, I cannot help with that.''" for t n ns
    by (simp add: sampleEnv_def)
  have jp: "jsonParse sampleEnv = sampleParse" by (simp add: sampleEnv_def)
  have pe: "parseFlashcardResponse sampleParse ''Sorry, I cannot help with that.''
      = Inl JsonSyntaxError"
    by code_simp
  have sel: "selectionType sampleRequest = ''flashcard''" by (simp add: sampleRequest_def)
  have g1: "\<exists>msg. generateFlashcards sampleEnv ''The cell.'' 5 None = Inl msg"
    using parseFlashcardResponse_validates [where env = sampleEnv and noteText = "''The cell.''"
        and numCards = 5 and optNotes = None
        and textResponse = "''Sorry, I cannot help with that.''" and pe = JsonSyntaxError]
      ft pe jp by simp
  have all: "\<forall>combinedText textResponse.
      flashcardText sampleEnv combinedText (numberOfItems sampleRequest)
        (requestNotes sampleRequest) = Inr textResponse
      \<longrightarrow> (\<exists>pe. parseFlashcardResponse (jsonParse sampleEnv) textResponse = Inl pe)"
    using ft pe jp by simp
  have g4: "\<exists>code. snd (processNotes sampleEnv (Some ''u1'') sampleRequest emptyWorld) = Inl code"
    using parseFlashcardResponse_validates [where env = sampleEnv and data = sampleRequest
        and auth = "Some ''u1''" and w = emptyWorld]
      sel all by blast
  have run: "\<exists>w'. processNotes workingEnv (Some ''u1'') sampleRequest emptyWorld
      = (w', Inr ?out)"
    using working_run by blast
  then obtain w' where w': "processNotes workingEnv (Some ''u1'') sampleRequest emptyWorld
      = (w', Inr ?out)" by blast
  have g3: "\<exists>combinedText textResponse.
          flashcardText workingEnv combinedText (numberOfItems sampleRequest)
              (requestNotes sampleRequest) = Inr textResponse
          \<and> parseFlashcardResponse (jsonParse workingEnv) textResponse = Inr ?out"
    using parseFlashcardResponse_validates [where env = workingEnv and data = sampleRequest
        and auth = "Some ''u1''" and w = emptyWorld and w' = w' and result = ?out]
      w' sel by blast
  have first: "(sampleParse (cleanResponse (fence @ ''json'' @ [CHR 0x0A]
        @ ''{\"title\":\"Cells\",\"tags\":\"bio\"}'' @ [CHR 0x0A] @ fence))
      = Some (JObject [(''title'', JString ''Cells''), (''tags'', JString ''bio'')])
    \<and> \<not> isArray (getProp (JObject [(''title'', JString ''Cells''), (''tags'', JString ''bio'')])
             ''cards'')
    \<and> nonEmptyString (getProp (JObject [(''title'', JString ''Cells''), (''tags'', JString ''bio'')])
          ''title'')
    \<and> parseFlashcardResponse sampleParse (fence @ ''json'' @ [CHR 0x0A]
        @ ''{\"title\":\"Cells\",\"tags\":\"bio\"}'' @ [CHR 0x0A] @ fence) = Inl CardsNotArray)
   \<and> (sampleParse (cleanResponse
          ''  {\"title\":\"Cells\",\"cards\":[{\"question\":\"Q\",\"answer\":\"A\"}]} '')
      = Some (JObject [(''title'', JString ''Cells''),
            (''cards'', JArray [JObject [(''question'', JString ''Q''), (''answer'', JString ''A'')]])])
    \<and> validFlashcardJson (JObject [(''title'', JString ''Cells''),
            (''cards'', JArray [JObject [(''question'', JString ''Q''), (''answer'', JString ''A'')]])])
    \<and> parseFlashcardResponse sampleParse
          ''  {\"title\":\"Cells\",\"cards\":[{\"question\":\"Q\",\"answer\":\"A\"}]} ''
        = Inr (JObject [(''title'', JString ''Cells''),
            (''cards'', JArray [JObject [(''question'', JString ''Q''), (''answer'', JString ''A'')]]),
            (''tags'', JArray [])]))"
    using c1 c2 a1 t1 v2 r1 r2 by blast
  show ?thesis
    using first ft [of "''The cell.''" 5 None] pe jp sel g1 g4 run g3
    by (intro conjI) simp_all
qed

subsection \<open>Session statistics\<close>

lemma quotient_of_pos:
  assumes "x > 0" "quotient_of x = (p, q)"
  shows "p > 0 \<and> q > 0 \<and> x = of_int p / of_int q"
proof -
  have q: "q > 0" using assms(2) by (rule quotient_of_denom_pos)
  have x: "x = of_int p / of_int q" using assms(2) by (rule quotient_of_div)
  have "p > 0"
  proof (rule ccontr)
    assume "\<not> p > 0"
    then have "(of_int p :: rat) \<le> 0" by simp
    with q have "(of_int p :: rat) / of_int q \<le> 0" by (simp add: divide_le_0_iff)
    with x assms(1) show False by simp
  qed
  with q x show ?thesis by simp
qed

lemma bitlen_pos: "p > 0 \<Longrightarrow> bitlen p \<ge> 1"
  using bitlen_bounds [of p] bitlen_nonneg [of p]
  by (cases "bitlen p = 0") auto

lemma binade_le:
  assumes "x > 0"
  shows "2 powi (binade x) \<le> x"
proof -
  obtain p q where pq: "quotient_of x = (p, q)" by (cases "quotient_of x") auto
  from quotient_of_pos [OF assms pq] have p: "p > 0" and q: "q > 0"
    and x: "x = of_int p / of_int q" by simp_all
  define k where "k = bitlen p - bitlen q"
  show ?thesis
  proof (cases "2 powi k \<le> x")
    case True
    then show ?thesis by (simp add: binade_def pq k_def)
  next
    case False
    then have b: "binade x = k - 1" by (simp add: binade_def pq k_def)
    have bp: "bitlen p \<ge> 1" and bq: "bitlen q \<ge> 1"
      using p q by (simp_all add: bitlen_pos)
    from bitlen_bounds [OF p] have "(2::int) ^ nat (bitlen p - 1) \<le> p" by simp
    then have "(of_int ((2::int) ^ nat (bitlen p - 1)) :: rat) \<le> of_int p"
      by (simp only: of_int_le_iff)
    then have lo: "(2::rat) ^ nat (bitlen p - 1) \<le> of_int p" by simp
    from bitlen_bounds [OF q] have "q < (2::int) ^ nat (bitlen q)" by simp
    then have "(of_int q :: rat) < of_int ((2::int) ^ nat (bitlen q))"
      by (simp only: of_int_less_iff)
    then have hi: "(of_int q :: rat) \<le> 2 ^ nat (bitlen q)" by simp
    have keq: "k - 1 = (bitlen p - 1) - bitlen q" by (simp add: k_def)
    have "(2::rat) powi (k - 1) = 2 powi ((bitlen p - 1) - bitlen q)"
      by (simp only: keq)
    also have "\<dots> = 2 powi (bitlen p - 1) / 2 powi (bitlen q)"
      by (rule power_int_diff) simp
    also have "\<dots> = 2 ^ nat (bitlen p - 1) / 2 ^ nat (bitlen q)"
      using bp bq by (simp add: power_int_def)
    also have "\<dots> \<le> of_int p / of_int q"
      using lo hi p q by (intro frac_le) simp_all
    finally show ?thesis using b x by simp
  qed
qed

lemma binade_gt:
  assumes "x > 0"
  shows "x < 2 powi (binade x + 1)"
proof -
  obtain p q where pq: "quotient_of x = (p, q)" by (cases "quotient_of x") auto
  from quotient_of_pos [OF assms pq] have p: "p > 0" and q: "q > 0"
    and x: "x = of_int p / of_int q" by simp_all
  define k where "k = bitlen p - bitlen q"
  show ?thesis
  proof (cases "2 powi k \<le> x")
    case False
    then show ?thesis by (simp add: binade_def pq k_def)
  next
    case True
    then have b: "binade x = k" by (simp add: binade_def pq k_def)
    have bp: "bitlen p \<ge> 1" and bq: "bitlen q \<ge> 1"
      using p q by (simp_all add: bitlen_pos)
    from bitlen_bounds [OF p] have "p < (2::int) ^ nat (bitlen p)" by simp
    then have "(of_int p :: rat) < of_int ((2::int) ^ nat (bitlen p))"
      by (simp only: of_int_less_iff)
    then have hi: "(of_int p :: rat) < 2 ^ nat (bitlen p)" by simp
    from bitlen_bounds [OF q] have "(2::int) ^ nat (bitlen q - 1) \<le> q" by simp
    then have "(of_int ((2::int) ^ nat (bitlen q - 1)) :: rat) \<le> of_int q"
      by (simp only: of_int_le_iff)
    then have lo: "(2::rat) ^ nat (bitlen q - 1) \<le> of_int q" by simp
    have "of_int p / of_int q < (2::rat) ^ nat (bitlen p) / 2 ^ nat (bitlen q - 1)"
      using lo hi p q by (intro frac_less) simp_all
    also have "\<dots> = 2 powi (bitlen p) / 2 powi (bitlen q - 1)"
      using bp bq by (simp add: power_int_def)
    also have "\<dots> = 2 powi (bitlen p - (bitlen q - 1))"
      by (rule power_int_diff [symmetric]) simp
    also have "bitlen p - (bitlen q - 1) = k + 1" by (simp add: k_def)
    finally show ?thesis using b x by simp
  qed
qed

lemma roundHalfEven_error: "\<bar>of_int (roundHalfEven m) - m\<bar> \<le> 1 / 2"
proof -
  have "of_int \<lfloor>m\<rfloor> \<le> m" "m < of_int \<lfloor>m\<rfloor> + 1" by linarith+
  then show ?thesis
    by (auto simp: roundHalfEven_def Let_def)
qed

lemma fl64_error:
  assumes "x > 0"
  shows "\<bar>fl64 x - x\<bar> \<le> x / 2 ^ 53"
proof -
  define e where "e = binade x"
  define ulp :: rat where "ulp = 2 powi (e - 52)"
  have ulp: "ulp > 0" by (simp add: ulp_def)
  have f: "fl64 x = of_int (roundHalfEven (x / ulp)) * ulp"
    using assms by (simp add: fl64_def e_def ulp_def Let_def)
  have "fl64 x - x = (of_int (roundHalfEven (x / ulp)) - x / ulp) * ulp"
    using ulp by (simp add: f algebra_simps)
  then have "\<bar>fl64 x - x\<bar> = \<bar>of_int (roundHalfEven (x / ulp)) - x / ulp\<bar> * ulp"
    using ulp by (simp add: abs_mult)
  also have "\<dots> \<le> (1 / 2) * ulp"
    using roundHalfEven_error [of "x / ulp"] ulp by (intro mult_right_mono) simp_all
  also have "\<dots> = 2 powi e / 2 ^ 53"
  proof -
    have "(2::rat) powi (e - 52) = 2 powi e / 2 powi 52"
      by (simp add: power_int_diff)
    then show ?thesis by (simp add: ulp_def)
  qed
  also have "\<dots> \<le> x / 2 ^ 53"
    using binade_le [OF assms] by (simp add: e_def divide_right_mono)
  finally show ?thesis .
qed


lemma fl64_zero: "fl64 0 = 0"
  by (simp add: fl64_def)

lemma double_product_close:
  assumes "0 < k" "k \<le> n"
  shows "\<bar>fl64 (fl64 (of_nat k / of_nat n) * 100) - 100 * of_nat k / of_nat n\<bar>
           \<le> 300 / 2 ^ 53"
proof -
  define x :: rat where "x = of_nat k / of_nat n"
  define q where "q = fl64 x"
  define y where "y = fl64 (q * 100)"
  have n: "0 < n" using assms by simp
  have x: "0 < x" "x \<le> 1" using assms n by (simp_all add: x_def)
  have e1: "\<bar>q - x\<bar> \<le> x / 2 ^ 53" unfolding q_def using x(1) by (rule fl64_error)
  have "x / 2 ^ 53 < x" using x(1) by simp
  with e1 have q: "0 < q" "q \<le> 2 * x" by linarith+
  then have "0 < q * 100" by simp
  then have e2: "\<bar>y - q * 100\<bar> \<le> q * 100 / 2 ^ 53" unfolding y_def by (rule fl64_error)
  have "q * 100 / 2 ^ 53 \<le> 200 * x / 2 ^ 53" using q(2) by (simp add: divide_right_mono)
  with e2 have e2': "\<bar>y - q * 100\<bar> \<le> 200 * x / 2 ^ 53" by linarith
  have "\<bar>y - 100 * x\<bar> = \<bar>(y - q * 100) + 100 * (q - x)\<bar>"
    by (simp add: algebra_simps)
  also have "\<dots> \<le> \<bar>y - q * 100\<bar> + \<bar>100 * (q - x)\<bar>" by (rule abs_triangle_ineq)
  also have "\<dots> = \<bar>y - q * 100\<bar> + 100 * \<bar>q - x\<bar>" by (subst abs_mult) simp
  also have "\<dots> \<le> 200 * x / 2 ^ 53 + 100 * (x / 2 ^ 53)"
  proof (rule add_mono)
    show "\<bar>y - q * 100\<bar> \<le> 200 * x / 2 ^ 53" by (rule e2')
    show "100 * \<bar>q - x\<bar> \<le> 100 * (x / 2 ^ 53)"
      using e1 by (intro mult_left_mono) simp_all
  qed
  also have "\<dots> = 300 * x / 2 ^ 53" by simp
  also have "\<dots> \<le> 300 / 2 ^ 53" using x(2) by (simp add: divide_right_mono)
  finally show ?thesis by (simp add: y_def q_def x_def)
qed

lemma accuracy_exact:
  assumes n: "0 < n" "n < 2 ^ 40" and k: "k \<le> n"
    and notie: "(200 * k + n) mod (2 * n) \<noteq> 0"
  shows "mathRound (fl64 (fl64 (of_nat k / of_nat n) * 100))
           = round (100 * of_nat k / of_nat n :: rat)"
proof (cases "k = 0")
  case True
  then show ?thesis by (simp add: fl64_zero mathRound_def round_def)
next
  case False
  define v :: rat where "v = 100 * of_nat k / of_nat n"
  define y where "y = fl64 (fl64 (of_nat k / of_nat n) * 100)"
  define a where "a = (200 * k + n) div (2 * n)"
  define r where "r = (200 * k + n) mod (2 * n)"
  have close: "\<bar>y - v\<bar> \<le> 300 / 2 ^ 53"
    unfolding y_def v_def using False k by (intro double_product_close) simp_all
  have r: "1 \<le> r" "r + 1 \<le> 2 * n" using notie n(1) by (simp_all add: r_def Suc_leI)
  have "200 * k + n = a * (2 * n) + r" by (simp only: a_def r_def div_mult_mod_eq)
  then have "(of_nat (200 * k + n) :: rat) = of_nat (a * (2 * n) + r)" by simp
  then have "(200 * of_nat k + of_nat n :: rat) = of_nat a * (2 * of_nat n) + of_nat r"
    by simp
  then have half: "v + 1 / 2 = of_nat a + of_nat r / (2 * of_nat n)"
    using n(1) by (simp add: v_def field_simps)
  have gap: "(300::rat) / 2 ^ 53 < 1 / (2 * of_nat n)"
  proof -
    have "(of_nat n :: rat) < of_nat (2 ^ 40)" using n(2) by (simp only: of_nat_less_iff)
    then have "(of_nat n :: rat) < 2 ^ 40" by simp
    then have "600 * (of_nat n :: rat) < 2 ^ 53" by simp
    then show ?thesis using n(1) by (simp add: field_simps)
  qed
  have lo: "1 / (2 * of_nat n) \<le> (of_nat r :: rat) / (2 * of_nat n)"
    using r(1) n(1) by (simp add: divide_right_mono)
  have "(of_nat (r + 1) :: rat) \<le> of_nat (2 * n)" using r(2) by (simp only: of_nat_le_iff)
  then have "(of_nat r :: rat) \<le> 2 * of_nat n - 1" by simp
  then have hi: "(of_nat r :: rat) / (2 * of_nat n) \<le> 1 - 1 / (2 * of_nat n)"
    using n(1) by (simp add: field_simps)
  define d :: rat where "d = 1 / (2 * of_nat n)"
  define w :: rat where "w = of_nat r / (2 * of_nat n)"
  define eps :: rat where "eps = 300 / 2 ^ 53"
  have eps: "0 < eps" by (simp add: eps_def)
  note half' = half [folded w_def] and lo' = lo [folded w_def d_def]
    and hi' = hi [folded w_def d_def] and gap' = gap [folded d_def eps_def]
    and close' = close [folded eps_def]
  have v1: "of_nat a < v + 1 / 2" "v + 1 / 2 < of_nat a + 1"
    using half' lo' hi' gap' eps by linarith+
  have y1: "of_nat a < y + 1 / 2" "y + 1 / 2 < of_nat a + 1"
    using half' lo' hi' gap' eps close' by linarith+
  have "\<lfloor>v + 1 / 2\<rfloor> = int a" using v1 by (intro floor_unique) simp_all
  moreover have "\<lfloor>y + 1 / 2\<rfloor> = int a" using y1 by (intro floor_unique) simp_all
  ultimately show ?thesis
    by (simp add: mathRound_def round_def y_def v_def)
qed

text \<open>Halfway or not, the accuracy is the rounded percentage or one less.\<close>

lemma accuracy_near:
  assumes n: "0 < n" "n < 2 ^ 40" and k: "k \<le> n"
  shows "mathRound (fl64 (fl64 (of_nat k / of_nat n) * 100))
           \<in> {round (100 * of_nat k / of_nat n :: rat) - 1, round (100 * of_nat k / of_nat n :: rat)}"
proof (cases "(200 * k + n) mod (2 * n) = 0")
  case False
  with accuracy_exact [OF n k] show ?thesis by simp
next
  case True
  show ?thesis
  proof (cases "k = 0")
    case True
    then show ?thesis by (simp add: fl64_zero mathRound_def round_def)
  next
    case False
    define v :: rat where "v = 100 * of_nat k / of_nat n"
    define y where "y = fl64 (fl64 (of_nat k / of_nat n) * 100)"
    define a where "a = (200 * k + n) div (2 * n)"
    have close: "\<bar>y - v\<bar> \<le> 300 / 2 ^ 53"
      unfolding y_def v_def using False k by (intro double_product_close) simp_all
    have "200 * k + n = a * (2 * n)"
      using \<open>(200 * k + n) mod (2 * n) = 0\<close> by (auto simp: a_def)
    then have "(of_nat (200 * k + n) :: rat) = of_nat (a * (2 * n))" by simp
    then have "(200 * of_nat k + of_nat n :: rat) = of_nat a * (2 * of_nat n)" by simp
    then have half: "v + 1 / 2 = of_nat a"
      using n(1) by (simp add: v_def field_simps)
    have small: "(300::rat) / 2 ^ 53 < 1" by simp
    have "\<lfloor>v + 1 / 2\<rfloor> = int a" by (simp add: half)
    moreover have "\<lfloor>y + 1 / 2\<rfloor> = int a \<or> \<lfloor>y + 1 / 2\<rfloor> = int a - 1"
    proof (cases "of_nat a \<le> y + 1 / 2")
      case True
      have "y + 1 / 2 < of_nat a + 1" using half close small by linarith
      with True have "\<lfloor>y + 1 / 2\<rfloor> = int a" by (intro floor_unique) simp_all
      then show ?thesis by simp
    next
      case False
      have c: "(of_int (int a - 1) :: rat) = of_nat a - 1" by simp
      have "of_int (int a - 1) \<le> y + 1 / 2" unfolding c using half close small by linarith
      moreover have "y + 1 / 2 < of_int (int a - 1) + 1" unfolding c using False by linarith
      ultimately have "\<lfloor>y + 1 / 2\<rfloor> = int a - 1" by (rule floor_unique)
      then show ?thesis by simp
    qed
    ultimately show ?thesis
      by (auto simp: mathRound_def round_def y_def v_def)
  qed
qed


lemma countResults_counts:
  "countResults results (k, l, c)
     = (k + knownCount results,
        l + length (filter (\<lambda>r. \<not> (wasCorrect r \<or> newConfidence r = 5)) results),
        c + knownCount results)"
  by (induction results arbitrary: k l c) (simp_all add: knownCount_def)

lemma knownCount_le: "knownCount results \<le> length results"
  by (simp add: knownCount_def)

lemma calculateSessionStats_eq:
  "results \<noteq> [] \<Longrightarrow>
   calculateSessionStats results
     = \<lparr>know = knownCount results,
        learning = length (filter (\<lambda>r. \<not> (wasCorrect r \<or> newConfidence r = 5)) results),
        accuracy = mathRound (fl64 (fl64 (of_nat (knownCount results) / of_nat (length results)) * 100))\<rparr>"
  by (simp add: calculateSessionStats_def countResults_counts)

lemma handleAnswerResult_consistent:
  "confidenceLevel \<le> 5 \<Longrightarrow>
   wasCorrect (handleAnswerResult i confidenceLevel b)
   \<or> newConfidence (handleAnswerResult i confidenceLevel b) \<noteq> 5"
  by (auto simp add: handleAnswerResult_def updateCardConfidence_def max_def)

lemma knownCount_wasCorrect:
  "\<forall>r\<in>set results. wasCorrect r \<or> newConfidence r \<noteq> 5
   \<Longrightarrow> knownCount results = length (filter wasCorrect results)"
  unfolding knownCount_def
  by (rule arg_cong [where f = length], rule filter_cong) auto

text \<open>
  The session of 23 right and 17 wrong answers: 23/40 is rounded to a double just below
  0.575, the product with 100 to 57.49999999999999, and \<^verbatim>\<open>Math.round\<close> gives 57.
\<close>

lemma accuracy_23_of_40:
  "accuracy (calculateSessionStats (replicate 23 answeredRight @ replicate 17 answeredWrong))
     = 57
   \<and> length (filter wasCorrect (replicate 23 answeredRight @ replicate 17 answeredWrong)) = 23
   \<and> length (replicate 23 answeredRight @ replicate 17 answeredWrong) = 40
   \<and> round (100 * 23 / 40 :: rat) = 58"
proof -
  let ?rs = "replicate 23 answeredRight @ replicate 17 answeredWrong"
  have a2: "mathRound (fl64 (fl64 (of_nat 23 / of_nat 40) * 100)) = 57" by code_simp
  have k2: "knownCount ?rs = 23"
    by (simp add: knownCount_def answeredRight_def answeredWrong_def)
  have n2: "length ?rs = 40" by simp
  have f2: "length (filter wasCorrect ?rs) = 23"
    by (simp add: answeredRight_def answeredWrong_def)
  have r2: "round (100 * 23 / 40 :: rat) = 58"
    by (simp add: round_def floor_unique)
  have ne: "?rs \<noteq> []" by simp
  have c2: "accuracy (calculateSessionStats ?rs) = 57"
    unfolding calculateSessionStats_eq [OF ne] k2 n2
    using a2 by simp
  show ?thesis
    using c2 f2 n2 r2 by blast
qed

text \<open>Not every exact half is rounded down: 1 of 8 gives 13.\<close>

lemma accuracy_1_of_8:
  "mathRound (fl64 (fl64 (of_nat 1 / of_nat 8) * 100)) = 13 \<and> round (100 * 1 / 8 :: rat) = 13"
proof -
  have "mathRound (fl64 (fl64 (of_nat 1 / of_nat 8) * 100)) = 13" by code_simp
  moreover have "round (100 * 1 / 8 :: rat) = 13" by (simp add: round_def floor_unique)
  ultimately show ?thesis by blast
qed

text \<open>
  A result marked wrong with new confidence 5 (the review screen builds none, see
  \<open>handleAnswerResult_consistent\<close>) is counted by \<open>correct\<close>.
\<close>

lemma accuracy_wrongAtFive:
  "accuracy (calculateSessionStats [wrongAtFive]) = 100
   \<and> length (filter wasCorrect [wrongAtFive]) = 0"
proof -
  have a1: "mathRound (fl64 (fl64 (of_nat 1 / of_nat 1) * 100)) = 100" by code_simp
  have k1: "knownCount [wrongAtFive] = 1" by (simp add: knownCount_def wrongAtFive_def)
  have f1: "length (filter wasCorrect [wrongAtFive]) = 0" by (simp add: wrongAtFive_def)
  have c1: "accuracy (calculateSessionStats [wrongAtFive]) = 100"
    unfolding calculateSessionStats_eq [of "[wrongAtFive]", simplified] k1
    using a1 by simp
  show ?thesis using c1 f1 by blast
qed

text \<open>
  C1. For every list of session results, \<open>know\<close> is the number of results with \<open>wasCorrect\<close>
  true or \<open>newConfidence\<close> equal to 5, \<open>learning\<close> is the number of the others, and the
  empty list gives three zeros, as claimed. The counter \<open>correct\<close> is incremented together
  with \<open>know\<close>; it is the number of results with \<open>wasCorrect\<close> true whenever no result is
  marked wrong with new confidence 5, which holds for the results the review screen
  builds from confidence levels up to 5. For a non-empty list (of fewer than \<open>2^40\<close>
  results) the accuracy is \<open>round(100 \<times> correct / total)\<close> whenever that percentage is not
  exactly halfway between two integers, and is that value or one less when it is. The
  code departs from the claim at such a half: for 23 right answers out of 40 it gives 57,
  not \<open>round(57.5) = 58\<close> (for 1 out of 8 it gives \<open>13 = round(12.5)\<close>).
\<close>

theorem calculateSessionStats_counts:
  "know (calculateSessionStats results) = knownCount results
   \<and> learning (calculateSessionStats results)
       = length (filter (\<lambda>r. \<not> (wasCorrect r \<or> newConfidence r = 5)) results)
   \<and> know (calculateSessionStats results) + learning (calculateSessionStats results)
       = length results
   \<and> (results = [] \<longrightarrow> calculateSessionStats results = \<lparr>know = 0, learning = 0, accuracy = 0\<rparr>)
   \<and> ((\<forall>r\<in>set results. wasCorrect r \<or> newConfidence r \<noteq> 5)
      \<longrightarrow> knownCount results = length (filter wasCorrect results))
   \<and> (confidenceLevel \<le> 5
      \<longrightarrow> wasCorrect (handleAnswerResult i confidenceLevel b)
          \<or> newConfidence (handleAnswerResult i confidenceLevel b) \<noteq> 5)
   \<and> (results \<noteq> [] \<and> length results < 2 ^ 40
        \<and> \<not> halfway (knownCount results) (length results)
      \<longrightarrow> accuracy (calculateSessionStats results)
          = round (100 * of_nat (knownCount results) / of_nat (length results) :: rat))
   \<and> (results \<noteq> [] \<and> length results < 2 ^ 40
      \<longrightarrow> accuracy (calculateSessionStats results)
            = round (100 * of_nat (knownCount results) / of_nat (length results) :: rat)
          \<or> accuracy (calculateSessionStats results)
            = round (100 * of_nat (knownCount results) / of_nat (length results) :: rat) - 1)
   \<and> accuracy (calculateSessionStats (replicate 23 answeredRight @ replicate 17 answeredWrong))
       = 57
   \<and> length (filter wasCorrect (replicate 23 answeredRight @ replicate 17 answeredWrong)) = 23
   \<and> length (replicate 23 answeredRight @ replicate 17 answeredWrong) = 40
   \<and> round (100 * 23 / 40 :: rat) = 58"
proof -
  have sum: "knownCount results
      + length (filter (\<lambda>r. \<not> (wasCorrect r \<or> newConfidence r = 5)) results) = length results"
    unfolding knownCount_def by (rule sum_length_filter_compl)
  have counts: "know (calculateSessionStats results) = knownCount results
   \<and> learning (calculateSessionStats results)
       = length (filter (\<lambda>r. \<not> (wasCorrect r \<or> newConfidence r = 5)) results)
   \<and> know (calculateSessionStats results) + learning (calculateSessionStats results)
       = length results
   \<and> (results = [] \<longrightarrow> calculateSessionStats results = \<lparr>know = 0, learning = 0, accuracy = 0\<rparr>)"
  proof (cases "results = []")
    case True
    then show ?thesis by (simp add: calculateSessionStats_def knownCount_def)
  next
    case False
    with sum show ?thesis by (simp add: calculateSessionStats_eq)
  qed
  have link: "knownCount results = length (filter wasCorrect results)"
    if "\<forall>r\<in>set results. wasCorrect r \<or> newConfidence r \<noteq> 5"
    using that by (rule knownCount_wasCorrect)
  have built: "wasCorrect (handleAnswerResult i confidenceLevel b)
          \<or> newConfidence (handleAnswerResult i confidenceLevel b) \<noteq> 5"
    if "confidenceLevel \<le> 5"
    using that by (rule handleAnswerResult_consistent)
  have exact: "accuracy (calculateSessionStats results)
      = round (100 * of_nat (knownCount results) / of_nat (length results) :: rat)"
    if h: "results \<noteq> [] \<and> length results < 2 ^ 40
        \<and> \<not> halfway (knownCount results) (length results)"
  proof -
    have "mathRound (fl64 (fl64 (of_nat (knownCount results) / of_nat (length results)) * 100))
      = round (100 * of_nat (knownCount results) / of_nat (length results) :: rat)"
      using h by (intro accuracy_exact knownCount_le) (simp_all add: halfway_def)
    with h show ?thesis by (simp add: calculateSessionStats_eq)
  qed
  have near: "accuracy (calculateSessionStats results)
            = round (100 * of_nat (knownCount results) / of_nat (length results) :: rat)
          \<or> accuracy (calculateSessionStats results)
            = round (100 * of_nat (knownCount results) / of_nat (length results) :: rat) - 1"
    if h: "results \<noteq> [] \<and> length results < 2 ^ 40"
  proof -
    have "mathRound (fl64 (fl64 (of_nat (knownCount results) / of_nat (length results)) * 100))
      \<in> {round (100 * of_nat (knownCount results) / of_nat (length results) :: rat) - 1,
         round (100 * of_nat (knownCount results) / of_nat (length results) :: rat)}"
      using h by (intro accuracy_near knownCount_le) simp_all
    with h show ?thesis by (auto simp add: calculateSessionStats_eq)
  qed
  show ?thesis using counts link built exact near accuracy_23_of_40 by blast
qed

theorem calculateSessionStats_counts_witness:
  "[answeredRight, answeredWrong, answeredRight] \<noteq> []
   \<and> length [answeredRight, answeredWrong, answeredRight] < 2 ^ 40
   \<and> wasCorrect answeredRight \<and> newConfidence answeredWrong = 1
   \<and> \<not> halfway (knownCount [answeredRight, answeredWrong, answeredRight])
         (length [answeredRight, answeredWrong, answeredRight])
   \<and> knownCount [answeredRight, answeredWrong, answeredRight] = 2
   \<and> length (filter wasCorrect [answeredRight, answeredWrong, answeredRight]) = 2
   \<and> know (calculateSessionStats [answeredRight, answeredWrong, answeredRight]) = 2
   \<and> learning (calculateSessionStats [answeredRight, answeredWrong, answeredRight]) = 1
   \<and> accuracy (calculateSessionStats [answeredRight, answeredWrong, answeredRight]) = 67
   \<and> (2::int) \<le> 5
   \<and> handleAnswerResult 0 2 True = answeredRight
   \<and> handleAnswerResult 1 2 False = answeredWrong
   \<and> newConfidence (handleAnswerResult 1 2 False) = 1"
proof -
  let ?rs = "[answeredRight, answeredWrong, answeredRight]"
  note t = calculateSessionStats_counts [of ?rs 2 1 False]
  have c: "\<forall>r\<in>set ?rs. wasCorrect r \<or> newConfidence r \<noteq> 5"
    by (simp add: answeredRight_def answeredWrong_def)
  have f: "length (filter wasCorrect ?rs) = 2"
    by (simp add: answeredRight_def answeredWrong_def)
  have k: "knownCount ?rs = 2"
    using t c f by simp
  have h: "\<not> halfway (knownCount ?rs) (length ?rs)"
    by (simp add: k halfway_def)
  have r: "round (100 * of_nat 2 / of_nat 3 :: rat) = 67"
    by (simp add: round_def floor_unique)
  have l: "learning (calculateSessionStats ?rs) = 1"
    using t by (simp add: answeredRight_def answeredWrong_def)
  have a: "accuracy (calculateSessionStats ?rs) = 67"
    using t k h r by simp
  have kn: "know (calculateSessionStats ?rs) = 2"
    using t k by simp
  have hr: "handleAnswerResult 0 2 True = answeredRight"
    "handleAnswerResult 1 2 False = answeredWrong"
    by (simp_all add: handleAnswerResult_def updateCardConfidence_def answeredRight_def
          answeredWrong_def)
  have b: "wasCorrect (handleAnswerResult 1 2 False)
       \<or> newConfidence (handleAnswerResult 1 2 False) \<noteq> 5"
    using t by simp
  have b': "newConfidence (handleAnswerResult 1 2 False) = 1"
    using b by (simp add: handleAnswerResult_def updateCardConfidence_def)
  have c': "wasCorrect answeredRight" "newConfidence answeredWrong = 1"
    by (simp_all add: answeredRight_def answeredWrong_def)
  show ?thesis
    using c' f k h l a kn hr b' by simp
qed

end
